theory Spec2Isabelle
  imports Complex_Main
begin

section \<open>The flowchart game of \<^verbatim>\<open>src/components/Queryflowchart.tsx\<close>\<close>

text \<open>
  The component \<^verbatim>\<open>FlowchartGame\<close> keeps a list of nodes and a list of edges in React
  state, and five handlers change them: \<^verbatim>\<open>addNode\<close>, \<^verbatim>\<open>onConnect\<close>,
  \<^verbatim>\<open>handleSubmit\<close>, \<^verbatim>\<open>handleReset\<close> and \<^verbatim>\<open>handleShowSolution\<close>. The handlers are
  modelled as functions from the state to the new state. What a handler does outside the
  state (a sound, the confetti, \<^verbatim>\<open>fitView\<close>) is appended to a log of effects, and the
  callbacks it hands to \<^verbatim>\<open>setTimeout\<close> are kept in the state as pending timers.
  Rendering (styles, markers, hover callbacks, the tooltip, the tab) is left out.
\<close>

subsection \<open>Decimal text of a number\<close>

definition digit_char :: "nat \<Rightarrow> char" where
  "digit_char n = ''0123456789'' ! (n mod 10)"

function show_nat :: "nat \<Rightarrow> string" where
  "show_nat n = (if n < 10 then [digit_char n] else show_nat (n div 10) @ [digit_char n])"
  by pat_completeness auto
termination
  by (relation "measure (\<lambda>n. n)") auto

declare show_nat.simps [simp del]

text \<open>
  \<^verbatim>\<open>Number.prototype.toFixed(1)\<close> prints the number of tenths nearest to its argument,
  the larger one on a tie. The arithmetic of the source is in double precision; it is
  modelled over the rationals. The only values the source ever passes are
  \<^verbatim>\<open>(correct / 11) * 100\<close> for \<^verbatim>\<open>correct\<close> from 0 to 11: each of them is farther than
  0.004 from a tie of the rounding and from the thresholds 50, 70 and 90, and each
  quotient \<^verbatim>\<open>correct / 11\<close> is farther than 0.02 from 0.7, while a double-precision
  result is within \<open>10\<^sup>-\<^sup>1\<^sup>2\<close> of the exact one, so both give the same text and the same
  comparisons. \<open>tenths\<close> is the number of tenths printed; \<open>parseFloat\<close> of the printed
  text reads it back as \<open>tenths / 10\<close>.
\<close>

definition tenths :: "rat \<Rightarrow> nat" where
  "tenths x = nat \<lfloor>x * 10 + 1 / 2\<rfloor>"

definition toFixed1 :: "rat \<Rightarrow> string" where
  "toFixed1 x = show_nat (tenths x div 10) @ ''.'' @ show_nat (tenths x mod 10)"

definition parseFloat_toFixed1 :: "rat \<Rightarrow> rat" where
  "parseFloat_toFixed1 x = of_nat (tenths x) / 10"

subsection \<open>Nodes, edges and the state\<close>

text \<open>
  A node of React Flow: its id, the label of its \<^verbatim>\<open>data\<close> and its position. The
  position is optional because \<^verbatim>\<open>handleShowSolution\<close> reads it from a table, and a
  missing key of a JavaScript object reads as \<^verbatim>\<open>undefined\<close>.
\<close>

record node =
  node_id :: string
  label :: string
  position :: "(rat \<times> rat) option"

text \<open>An edge: its id, the ids of its source and target nodes, and the two handles
  (\<open>None\<close> for \<^verbatim>\<open>null\<close> or a missing field).\<close>

record edge =
  edge_id :: string
  source :: string
  target :: string
  sourceHandle :: "string option"
  targetHandle :: "string option"

text \<open>The \<^verbatim>\<open>Connection\<close> React Flow passes to \<^verbatim>\<open>onConnect\<close>: each field is a string
  or \<^verbatim>\<open>null\<close>.\<close>

record connection =
  conn_source :: "string option"
  conn_target :: "string option"
  conn_sourceHandle :: "string option"
  conn_targetHandle :: "string option"

text \<open>The \<^verbatim>\<open>Result\<close> interface; \<open>accuracy\<close> is a string in the source too.\<close>

record result =
  correct :: nat
  total :: nat
  accuracy :: string
  feedback :: string

datatype effect = PlayConnect | PlaySuccess | Confetti | PlayError | FitViewCalled

text \<open>
  The two closures \<^verbatim>\<open>handleShowSolution\<close> gives to \<^verbatim>\<open>setTimeout\<close>:
  \<open>AppendEdge e is_last\<close> appends \<open>e\<close> to the edges and, when \<open>is_last\<close>
  (\<^verbatim>\<open>i === solutionEdges.length - 1\<close>), schedules \<open>CallFitView\<close> 100 ms later.
\<close>

datatype task = AppendEdge edge bool | CallFitView

type_synonym timer = "nat \<times> task"

record game =
  nodes :: "node list"
  edges :: "edge list"
  game_result :: "result option"
  showSolution :: bool
  showResultOverlay :: bool
  now :: nat
  timers :: "timer list"
  effects :: "effect list"

definition initial :: game where
  "initial = \<lparr>nodes = [], edges = [], game_result = None, showSolution = False,
     showResultOverlay = False, now = 0, timers = [], effects = []\<rparr>"

subsection \<open>The reference tables\<close>

text \<open>The palette of node kinds, \<^verbatim>\<open>nodeTemplates\<close>: each label with its description.\<close>

definition nodeTemplates :: "(string \<times> string) list" where
  "nodeTemplates =
    [(''User'', ''Initiates the query and receives final results''),
     (''Knowledge Base'', ''Structured data repository for information retrieval''),
     (''AI Engine (Chain)'', ''Orchestrates the query processing pipeline''),
     (''Retriever'', ''Fetches relevant information from knowledge base''),
     (''LLM Model'', ''Generates responses using language understanding''),
     (''Prompt Template'', ''Structures the input for consistent LLM processing''),
     (''Output/Results Formatted'', ''Final presentation-ready response to user''),
     (''Evaluation'', ''Assesses quality of generated responses''),
     (''API Endpoints'', ''System integration points for external applications''),
     (''Human Feedback'', ''User corrections to improve future responses'')]"

definition expectedFlow :: "(string \<times> string) list" where
  "expectedFlow =
    [(''User'', ''Knowledge Base''),
     (''Knowledge Base'', ''AI Engine (Chain)''),
     (''AI Engine (Chain)'', ''Retriever''),
     (''AI Engine (Chain)'', ''API Endpoints''),
     (''Retriever'', ''LLM Model''),
     (''LLM Model'', ''Prompt Template''),
     (''Prompt Template'', ''Output/Results Formatted''),
     (''Output/Results Formatted'', ''User''),
     (''Output/Results Formatted'', ''Evaluation''),
     (''Evaluation'', ''Human Feedback''),
     (''Human Feedback'', ''Prompt Template'')]"

definition nodePositions :: "string \<Rightarrow> (rat \<times> rat) option" where
  "nodePositions = map_of
    [(''User'', (400, 50)),
     (''Knowledge Base'', (200, 150)),
     (''AI Engine (Chain)'', (400, 250)),
     (''Retriever'', (250, 350)),
     (''LLM Model'', (400, 350)),
     (''Prompt Template'', (400, 450)),
     (''Output/Results Formatted'', (400, 550)),
     (''Evaluation'', (250, 650)),
     (''Human Feedback'', (150, 750)),
     (''API Endpoints'', (550, 350))]"

subsection \<open>Timers\<close>

text \<open>
  \<^verbatim>\<open>setTimeout(f, d)\<close> registers \<open>f\<close> to run \<open>d\<close> ms from now. The pending timers
  are kept in the order of their registration.
\<close>

definition setTimeout :: "task \<Rightarrow> nat \<Rightarrow> game \<Rightarrow> game" where
  "setTimeout f d st = st\<lparr>timers := timers st @ [(now st + d, f)]\<rparr>"

text \<open>What a timer's callback does when it runs.\<close>

fun fire :: "task \<Rightarrow> game \<Rightarrow> game" where
  "fire (AppendEdge e is_last) st =
     (let st' = st\<lparr>edges := edges st @ [e]\<rparr>
      in if is_last then setTimeout CallFitView 100 st' else st')"
| "fire CallFitView st = st\<lparr>effects := effects st @ [FitViewCalled]\<rparr>"

text \<open>
  The event loop runs the pending timer that is due first, and of two timers due at the
  same time the one registered first.
\<close>

fun next_timer :: "timer list \<Rightarrow> timer option" where
  "next_timer [] = None"
| "next_timer (t # ts) =
     (case next_timer ts of
        None \<Rightarrow> Some t
      | Some u \<Rightarrow> if fst t \<le> fst u then Some t else Some u)"

fun weight :: "timer \<Rightarrow> nat" where
  "weight (_, AppendEdge _ is_last) = (if is_last then 2 else 1)"
| "weight (_, CallFitView) = 1"

lemma next_timer_mem: "next_timer ts = Some t \<Longrightarrow> t \<in> set ts"
  by (induction ts arbitrary: t) (auto split: option.splits if_splits)

lemma weight_pos: "0 < weight t"
  by (cases t rule: weight.cases) auto

lemma weight_remove1:
  "t \<in> set ts \<Longrightarrow> sum_list (map weight (remove1 t ts)) + weight t = sum_list (map weight ts)"
  by (induction ts) auto

text \<open>
  \<open>run_until limit\<close> lets the time pass up to \<open>limit\<close> with no other event: every
  timer due by then runs, a timer registered on the way included. A timer is taken to
  run exactly when it is due; a browser may run it later, but never before, and never
  before a timer that is due earlier.
\<close>

function run_until :: "nat \<Rightarrow> game \<Rightarrow> game" where
  "run_until limit st =
     (case next_timer (timers st) of
        None \<Rightarrow> st\<lparr>now := max (now st) limit\<rparr>
      | Some t \<Rightarrow>
          if fst t \<le> limit
          then run_until limit
                 (fire (snd t) (st\<lparr>now := max (now st) (fst t), timers := remove1 t (timers st)\<rparr>))
          else st\<lparr>now := max (now st) limit\<rparr>)"
  by pat_completeness auto
termination
proof (relation "measure (\<lambda>(limit, st). sum_list (map weight (timers st)))", goal_cases)
  case 1
  show ?case by simp
next
  case (2 limit st t)
  from 2(1) have mem: "t \<in> set (timers st)" by (rule next_timer_mem)
  obtain d f where t: "t = (d, f)" by (cases t)
  from weight_remove1 [OF mem] weight_pos [of t] show ?case
    by (cases f) (auto simp: t setTimeout_def Let_def)
qed

declare run_until.simps [simp del]

subsection \<open>Timers of two origins\<close>

text \<open>
  The two definitions of this subsection are not code of the component: they state, for
  the proofs about a reveal that starts while timers are pending, what it means that two
  groups of timers do not disturb each other.

  \<open>independent c a b\<close>: the timers, edges and effects of \<open>c\<close> are those of \<open>a\<close> and those of
  \<open>b\<close>, interleaved, and the three clocks agree wherever a pending timer can read them.
\<close>

definition independent :: "game \<Rightarrow> game \<Rightarrow> game \<Rightarrow> bool" where
  "independent c a b \<longleftrightarrow>
     timers c \<in> shuffles (timers a) (timers b)
     \<and> edges c \<in> shuffles (edges a) (edges b)
     \<and> effects c \<in> shuffles (effects a) (effects b)
     \<and> now a \<le> now c \<and> now b \<le> now c
     \<and> (\<forall>u\<in>set (timers c). now c \<le> max (now a) (fst u) \<and> now c \<le> max (now b) (fst u))"

text \<open>The state after the timer \<open>t\<close> has run, as in \<open>run_until\<close>.\<close>

definition after_timer :: "timer \<Rightarrow> game \<Rightarrow> game" where
  "after_timer t st =
     fire (snd t) (st\<lparr>now := max (now st) (fst t), timers := remove1 t (timers st)\<rparr>)"

subsection \<open>\<^verbatim>\<open>addNode\<close>\<close>

text \<open>
  \<open>uuid\<close> is what \<^verbatim>\<open>uuidv4()\<close> returns in this call, and \<open>x\<close> is the value the source
  computes for \<^verbatim>\<open>250 + Math.random() * 400\<close>: a double between 250 and 650, which is a
  rational number. The random draw and the rounding of that sum stay outside the model.
  \<^verbatim>\<open>100 + nodes.length * 80\<close> is a sum of small integers, which double precision
  computes exactly.
\<close>

definition addNode :: "string \<Rightarrow> rat \<Rightarrow> string \<Rightarrow> game \<Rightarrow> game" where
  "addNode uuid x lbl st =
     (let y = 100 + of_nat (length (nodes st)) * 80;
          newNode = \<lparr>node_id = uuid, label = lbl, position = Some (x, y)\<rparr>
      in st\<lparr>nodes := nodes st @ [newNode]\<rparr>)"

subsection \<open>\<^verbatim>\<open>onConnect\<close> and React Flow's \<^verbatim>\<open>addEdge\<close>\<close>

text \<open>
  \<^verbatim>\<open>addEdge\<close> is imported from the library \<^verbatim>\<open>reactflow\<close> and is not part of the
  repository. The definitions below, up to \<open>addEdge\<close>, follow the library's function
  (version 11): it returns the edges as they are when the source or the target of the connection is
  missing or empty, or when an edge with the same source, target and handles is there
  already; otherwise it appends the connection as an edge, with an id made of its ends.
  It is given the connection and the edges only, never the nodes.
\<close>

definition falsy :: "string option \<Rightarrow> bool" where
  "falsy h = (h = None \<or> h = Some [])"

definition or_empty :: "string option \<Rightarrow> string" where
  "or_empty h = (case h of None \<Rightarrow> [] | Some s \<Rightarrow> s)"

definition getEdgeId :: "connection \<Rightarrow> string" where
  "getEdgeId c =
     ''reactflow__edge-'' @ or_empty (conn_source c) @ or_empty (conn_sourceHandle c)
       @ ''-'' @ or_empty (conn_target c) @ or_empty (conn_targetHandle c)"

definition connectionExists :: "edge \<Rightarrow> edge list \<Rightarrow> bool" where
  "connectionExists e es =
     list_ex (\<lambda>el. source el = source e \<and> target el = target e
        \<and> (sourceHandle el = sourceHandle e \<or> (falsy (sourceHandle el) \<and> falsy (sourceHandle e)))
        \<and> (targetHandle el = targetHandle e \<or> (falsy (targetHandle el) \<and> falsy (targetHandle e)))) es"

definition addEdge :: "connection \<Rightarrow> edge list \<Rightarrow> edge list" where
  "addEdge c es =
     (if falsy (conn_source c) \<or> falsy (conn_target c) then es
      else let e = \<lparr>edge_id = getEdgeId c, source = or_empty (conn_source c),
                     target = or_empty (conn_target c),
                     sourceHandle = conn_sourceHandle c, targetHandle = conn_targetHandle c\<rparr>
           in if connectionExists e es then es else es @ [e])"

definition onConnect :: "connection \<Rightarrow> game \<Rightarrow> game" where
  "onConnect c st =
     st\<lparr>effects := effects st @ [PlayConnect], edges := addEdge c (edges st)\<rparr>"

subsection \<open>\<^verbatim>\<open>handleSubmit\<close>\<close>

text \<open>The body of the \<^verbatim>\<open>forEach\<close> over \<^verbatim>\<open>expectedFlow\<close>: the new value of
  \<^verbatim>\<open>correct\<close> after one pair.\<close>

definition check_pair :: "node list \<Rightarrow> edge list \<Rightarrow> string \<times> string \<Rightarrow> nat \<Rightarrow> nat" where
  "check_pair ns es = (\<lambda>(srcLabel, tgtLabel) n.
     case find (\<lambda>n. label n = srcLabel) ns of
       None \<Rightarrow> n
     | Some srcNode \<Rightarrow>
         (case find (\<lambda>n. label n = tgtLabel) ns of
            None \<Rightarrow> n
          | Some tgtNode \<Rightarrow>
              (case find (\<lambda>e. source e = node_id srcNode \<and> target e = node_id tgtNode) es of
                 None \<Rightarrow> n
               | Some match \<Rightarrow> n + 1)))"

definition count_correct :: "node list \<Rightarrow> edge list \<Rightarrow> nat" where
  "count_correct ns es = fold (check_pair ns es) expectedFlow 0"

definition msg_excellent :: string where
  "msg_excellent = ''Excellent! You have nearly perfect understanding of the flow.''"

definition msg_good :: string where
  "msg_good = ''Good job! You understand most of the key connections.''"

definition msg_fair :: string where
  "msg_fair = ''Not bad! Review the solution to see what you missed.''"

definition msg_needs_work :: string where
  "msg_needs_work = ''Keep trying! Review the steps and try again.''"

definition feedback_of :: "rat \<Rightarrow> string" where
  "feedback_of x =
     (if parseFloat_toFixed1 x \<ge> 90 then msg_excellent
      else if parseFloat_toFixed1 x \<ge> 70 then msg_good
      else if parseFloat_toFixed1 x \<ge> 50 then msg_fair
      else msg_needs_work)"

definition handleSubmit :: "game \<Rightarrow> game" where
  "handleSubmit st =
     (let n = count_correct (nodes st) (edges st);
          ratio = (of_nat n :: rat) / of_nat (length expectedFlow);
          fx = (if ratio \<ge> 7 / 10 then [PlaySuccess, Confetti] else [PlayError])
      in st\<lparr>effects := effects st @ fx,
            game_result := Some \<lparr>correct = n, total = length expectedFlow,
                                 accuracy = toFixed1 (ratio * 100),
                                 feedback = feedback_of (ratio * 100)\<rparr>,
            showResultOverlay := True\<rparr>)"

subsection \<open>\<^verbatim>\<open>handleReset\<close>\<close>


subsection \<open>\<^verbatim>\<open>handleShowSolution\<close>\<close>

text \<open>
  The first \<^verbatim>\<open>forEach\<close> builds \<^verbatim>\<open>nodeMap\<close>, \<^verbatim>\<open>createdNodes\<close> and
  \<^verbatim>\<open>solutionEdges\<close>. \<open>uuid k\<close> is what the call of \<^verbatim>\<open>uuidv4()\<close> returns that makes
  the node pushed at index \<open>k\<close> of \<^verbatim>\<open>createdNodes\<close> (each call is followed by one push).
\<close>

record builder =
  nodeMap :: "string \<Rightarrow> node option"
  createdNodes :: "node list"
  solutionEdges :: "edge list"

definition ensure_node :: "(nat \<Rightarrow> string) \<Rightarrow> string \<Rightarrow> builder \<Rightarrow> builder" where
  "ensure_node uuid lbl b =
     (if nodeMap b lbl = None
      then let n = \<lparr>node_id = uuid (length (createdNodes b)), label = lbl,
                     position = nodePositions lbl\<rparr>
           in b\<lparr>nodeMap := (nodeMap b)(lbl \<mapsto> n), createdNodes := createdNodes b @ [n]\<rparr>
      else b)"

text \<open>One round of the loop. Both labels are keys of \<^verbatim>\<open>nodeMap\<close> when the edge is
  pushed (lemma \<open>ensure_both\<close> below), so \<open>the\<close> is only applied to \<open>Some\<close>.\<close>

definition build_step :: "(nat \<Rightarrow> string) \<Rightarrow> builder \<Rightarrow> nat \<times> string \<times> string \<Rightarrow> builder" where
  "build_step uuid b = (\<lambda>(index, srcLabel, tgtLabel).
     let b1 = ensure_node uuid srcLabel b;
         b2 = ensure_node uuid tgtLabel b1
     in b2\<lparr>solutionEdges := solutionEdges b2 @
          [\<lparr>edge_id = ''e-'' @ show_nat index,
            source = node_id (the (nodeMap b2 srcLabel)),
            target = node_id (the (nodeMap b2 tgtLabel)),
            sourceHandle = None, targetHandle = None\<rparr>]\<rparr>)"

definition build :: "(nat \<Rightarrow> string) \<Rightarrow> builder" where
  "build uuid =
     foldl (build_step uuid)
       \<lparr>nodeMap = (\<lambda>_. None), createdNodes = [], solutionEdges = []\<rparr>
       (enumerate 0 expectedFlow)"

text \<open>The second \<^verbatim>\<open>forEach\<close>: one \<^verbatim>\<open>setTimeout\<close> for each edge, \<open>i * 100\<close> ms from
  now; \<open>len\<close> is \<^verbatim>\<open>solutionEdges.length\<close>.\<close>

fun schedule :: "nat \<Rightarrow> (nat \<times> edge) list \<Rightarrow> game \<Rightarrow> game" where
  "schedule len [] st = st"
| "schedule len ((i, e) # rest) st =
     schedule len rest (setTimeout (AppendEdge e (i = len - 1)) (i * 100) st)"

definition handleShowSolution :: "(nat \<Rightarrow> string) \<Rightarrow> game \<Rightarrow> game" where
  "handleShowSolution uuid st =
     (let b = build uuid;
          st1 = st\<lparr>nodes := createdNodes b, edges := [], game_result := None,
                   showSolution := True\<rparr>
      in schedule (length (solutionEdges b)) (enumerate 0 (solutionEdges b)) st1)"

subsection \<open>Sample inputs\<close>

text \<open>A sequence of distinct ids, for the concrete runs below.\<close>

definition uuid_seq :: "nat \<Rightarrow> string" where
  "uuid_seq k = ''node-'' @ show_nat k"

text \<open>A second sequence of ids, for a second reveal.\<close>

definition uuid_again :: "nat \<Rightarrow> string" where
  "uuid_again k = ''again-'' @ show_nat k"

text \<open>Users' actions in a row: adding nodes (id and label, each at \<open>x = 450\<close>) and
  connecting pairs of ids.\<close>

definition add_all :: "(string \<times> string) list \<Rightarrow> game \<Rightarrow> game" where
  "add_all xs st = foldl (\<lambda>st (uuid, lbl). addNode uuid 450 lbl st) st xs"

definition connect_all :: "(string \<times> string) list \<Rightarrow> game \<Rightarrow> game" where
  "connect_all xs st =
     foldl (\<lambda>st (s, t). onConnect \<lparr>conn_source = Some s, conn_target = Some t,
                            conn_sourceHandle = None, conn_targetHandle = None\<rparr> st) st xs"

text \<open>A graph with two nodes labelled User, where the whole reference flow is drawn
  through the second one.\<close>

definition two_users :: game where
  "two_users =
     connect_all
       [(''u2'', ''k''), (''k'', ''a''), (''a'', ''r''), (''a'', ''p''), (''r'', ''l''),
        (''l'', ''t''), (''t'', ''o''), (''o'', ''u2''), (''o'', ''e''), (''e'', ''h''),
        (''h'', ''t'')]
       (add_all
          [(''u1'', ''User''), (''u2'', ''User''), (''k'', ''Knowledge Base''),
           (''a'', ''AI Engine (Chain)''), (''r'', ''Retriever''), (''p'', ''API Endpoints''),
           (''l'', ''LLM Model''), (''t'', ''Prompt Template''),
           (''o'', ''Output/Results Formatted''), (''e'', ''Evaluation''),
           (''h'', ''Human Feedback'')]
          initial)"

text \<open>A graph with the first reference edge drawn backwards.\<close>

definition backwards :: game where
  "backwards =
     connect_all [(''k'', ''u'')]
       (add_all [(''u'', ''User''), (''k'', ''Knowledge Base'')] initial)"

subsection \<open>The wording of a claim\<close>

text \<open>
  The condition of claim C2 in the claim's own words, to compare with what
  \<^verbatim>\<open>handleSubmit\<close> counts: for every pair of \<^verbatim>\<open>expectedFlow\<close>, some node of the source
  kind and some node of the target kind are joined by an edge from the first to the
  second.
\<close>

definition every_pair_connected :: "node list \<Rightarrow> edge list \<Rightarrow> bool" where
  "every_pair_connected ns es =
     list_all (\<lambda>(s, t).
       list_ex (\<lambda>a. label a = s \<and>
         list_ex (\<lambda>b. label b = t \<and>
           list_ex (\<lambda>e. source e = node_id a \<and> target e = node_id b) es) ns) ns) expectedFlow"

section \<open>Lemmas\<close>

subsection \<open>The value of the builder\<close>

lemma ensure_node_key: "nodeMap (ensure_node uuid lbl b) lbl \<noteq> None"
  by (simp add: ensure_node_def Let_def)

lemma ensure_node_keeps: "nodeMap b k \<noteq> None \<Longrightarrow> nodeMap (ensure_node uuid lbl b) k \<noteq> None"
  by (simp add: ensure_node_def Let_def)

lemma ensure_both:
  "nodeMap (ensure_node uuid tgtLabel (ensure_node uuid srcLabel b)) srcLabel \<noteq> None
   \<and> nodeMap (ensure_node uuid tgtLabel (ensure_node uuid srcLabel b)) tgtLabel \<noteq> None"
  by (simp add: ensure_node_key ensure_node_keeps)

lemma enumerate_expectedFlow:
  "enumerate 0 expectedFlow =
    [(0, ''User'', ''Knowledge Base''),
     (1, ''Knowledge Base'', ''AI Engine (Chain)''),
     (2, ''AI Engine (Chain)'', ''Retriever''),
     (3, ''AI Engine (Chain)'', ''API Endpoints''),
     (4, ''Retriever'', ''LLM Model''),
     (5, ''LLM Model'', ''Prompt Template''),
     (6, ''Prompt Template'', ''Output/Results Formatted''),
     (7, ''Output/Results Formatted'', ''User''),
     (8, ''Output/Results Formatted'', ''Evaluation''),
     (9, ''Evaluation'', ''Human Feedback''),
     (10, ''Human Feedback'', ''Prompt Template'')]"
  by (simp add: expectedFlow_def eval_nat_numeral)

lemma show_nat_digits:
  "show_nat 0 = ''0''" "show_nat 1 = ''1''" "show_nat 2 = ''2''" "show_nat 3 = ''3''"
  "show_nat 4 = ''4''" "show_nat 5 = ''5''" "show_nat 6 = ''6''" "show_nat 7 = ''7''"
  "show_nat 8 = ''8''" "show_nat 9 = ''9''" "show_nat 10 = ''10''" "show_nat (Suc 0) = ''1''"
  by (simp_all add: show_nat.simps digit_char_def)

lemma suc_nums:
  "Suc (Suc 0) = 2" "Suc 2 = 3" "Suc 3 = 4" "Suc 4 = 5" "Suc 5 = 6" "Suc 6 = 7" "Suc 7 = 8"
  "Suc 8 = 9" "Suc 9 = 10"
  by simp_all

lemma build_eval:
  "\<exists>m. build uuid = \<lparr>nodeMap = m, createdNodes =
    [\<lparr>node_id = uuid 0, label = ''User'', position = Some (400, 50)\<rparr>,
     \<lparr>node_id = uuid 1, label = ''Knowledge Base'', position = Some (200, 150)\<rparr>,
     \<lparr>node_id = uuid 2, label = ''AI Engine (Chain)'', position = Some (400, 250)\<rparr>,
     \<lparr>node_id = uuid 3, label = ''Retriever'', position = Some (250, 350)\<rparr>,
     \<lparr>node_id = uuid 4, label = ''API Endpoints'', position = Some (550, 350)\<rparr>,
     \<lparr>node_id = uuid 5, label = ''LLM Model'', position = Some (400, 350)\<rparr>,
     \<lparr>node_id = uuid 6, label = ''Prompt Template'', position = Some (400, 450)\<rparr>,
     \<lparr>node_id = uuid 7, label = ''Output/Results Formatted'', position = Some (400, 550)\<rparr>,
     \<lparr>node_id = uuid 8, label = ''Evaluation'', position = Some (250, 650)\<rparr>,
     \<lparr>node_id = uuid 9, label = ''Human Feedback'', position = Some (150, 750)\<rparr>],
    solutionEdges =
    [\<lparr>edge_id = ''e-0'', source = uuid 0, target = uuid 1, sourceHandle = None, targetHandle = None\<rparr>,
     \<lparr>edge_id = ''e-1'', source = uuid 1, target = uuid 2, sourceHandle = None, targetHandle = None\<rparr>,
     \<lparr>edge_id = ''e-2'', source = uuid 2, target = uuid 3, sourceHandle = None, targetHandle = None\<rparr>,
     \<lparr>edge_id = ''e-3'', source = uuid 2, target = uuid 4, sourceHandle = None, targetHandle = None\<rparr>,
     \<lparr>edge_id = ''e-4'', source = uuid 3, target = uuid 5, sourceHandle = None, targetHandle = None\<rparr>,
     \<lparr>edge_id = ''e-5'', source = uuid 5, target = uuid 6, sourceHandle = None, targetHandle = None\<rparr>,
     \<lparr>edge_id = ''e-6'', source = uuid 6, target = uuid 7, sourceHandle = None, targetHandle = None\<rparr>,
     \<lparr>edge_id = ''e-7'', source = uuid 7, target = uuid 0, sourceHandle = None, targetHandle = None\<rparr>,
     \<lparr>edge_id = ''e-8'', source = uuid 7, target = uuid 8, sourceHandle = None, targetHandle = None\<rparr>,
     \<lparr>edge_id = ''e-9'', source = uuid 8, target = uuid 9, sourceHandle = None, targetHandle = None\<rparr>,
     \<lparr>edge_id = ''e-10'', source = uuid 9, target = uuid 6, sourceHandle = None, targetHandle = None\<rparr>]\<rparr>"
  apply (simp add: build_def enumerate_expectedFlow build_step_def ensure_node_def Let_def
      nodePositions_def show_nat_digits)
  apply (simp only: suc_nums)
  done


lemma build_nodes:
  "createdNodes (build uuid) =
    [\<lparr>node_id = uuid 0, label = ''User'', position = Some (400, 50)\<rparr>,
     \<lparr>node_id = uuid 1, label = ''Knowledge Base'', position = Some (200, 150)\<rparr>,
     \<lparr>node_id = uuid 2, label = ''AI Engine (Chain)'', position = Some (400, 250)\<rparr>,
     \<lparr>node_id = uuid 3, label = ''Retriever'', position = Some (250, 350)\<rparr>,
     \<lparr>node_id = uuid 4, label = ''API Endpoints'', position = Some (550, 350)\<rparr>,
     \<lparr>node_id = uuid 5, label = ''LLM Model'', position = Some (400, 350)\<rparr>,
     \<lparr>node_id = uuid 6, label = ''Prompt Template'', position = Some (400, 450)\<rparr>,
     \<lparr>node_id = uuid 7, label = ''Output/Results Formatted'', position = Some (400, 550)\<rparr>,
     \<lparr>node_id = uuid 8, label = ''Evaluation'', position = Some (250, 650)\<rparr>,
     \<lparr>node_id = uuid 9, label = ''Human Feedback'', position = Some (150, 750)\<rparr>]"
proof -
  from build_eval [of uuid] obtain m where b: "build uuid = \<lparr>nodeMap = m, createdNodes =
    [\<lparr>node_id = uuid 0, label = ''User'', position = Some (400, 50)\<rparr>,
     \<lparr>node_id = uuid 1, label = ''Knowledge Base'', position = Some (200, 150)\<rparr>,
     \<lparr>node_id = uuid 2, label = ''AI Engine (Chain)'', position = Some (400, 250)\<rparr>,
     \<lparr>node_id = uuid 3, label = ''Retriever'', position = Some (250, 350)\<rparr>,
     \<lparr>node_id = uuid 4, label = ''API Endpoints'', position = Some (550, 350)\<rparr>,
     \<lparr>node_id = uuid 5, label = ''LLM Model'', position = Some (400, 350)\<rparr>,
     \<lparr>node_id = uuid 6, label = ''Prompt Template'', position = Some (400, 450)\<rparr>,
     \<lparr>node_id = uuid 7, label = ''Output/Results Formatted'', position = Some (400, 550)\<rparr>,
     \<lparr>node_id = uuid 8, label = ''Evaluation'', position = Some (250, 650)\<rparr>,
     \<lparr>node_id = uuid 9, label = ''Human Feedback'', position = Some (150, 750)\<rparr>],
    solutionEdges =
    [\<lparr>edge_id = ''e-0'', source = uuid 0, target = uuid 1, sourceHandle = None, targetHandle = None\<rparr>,
     \<lparr>edge_id = ''e-1'', source = uuid 1, target = uuid 2, sourceHandle = None, targetHandle = None\<rparr>,
     \<lparr>edge_id = ''e-2'', source = uuid 2, target = uuid 3, sourceHandle = None, targetHandle = None\<rparr>,
     \<lparr>edge_id = ''e-3'', source = uuid 2, target = uuid 4, sourceHandle = None, targetHandle = None\<rparr>,
     \<lparr>edge_id = ''e-4'', source = uuid 3, target = uuid 5, sourceHandle = None, targetHandle = None\<rparr>,
     \<lparr>edge_id = ''e-5'', source = uuid 5, target = uuid 6, sourceHandle = None, targetHandle = None\<rparr>,
     \<lparr>edge_id = ''e-6'', source = uuid 6, target = uuid 7, sourceHandle = None, targetHandle = None\<rparr>,
     \<lparr>edge_id = ''e-7'', source = uuid 7, target = uuid 0, sourceHandle = None, targetHandle = None\<rparr>,
     \<lparr>edge_id = ''e-8'', source = uuid 7, target = uuid 8, sourceHandle = None, targetHandle = None\<rparr>,
     \<lparr>edge_id = ''e-9'', source = uuid 8, target = uuid 9, sourceHandle = None, targetHandle = None\<rparr>,
     \<lparr>edge_id = ''e-10'', source = uuid 9, target = uuid 6, sourceHandle = None, targetHandle = None\<rparr>]\<rparr>"
    by blast
  show ?thesis by (simp only: b builder.simps)
qed

lemma build_edges:
  "solutionEdges (build uuid) =
    [\<lparr>edge_id = ''e-0'', source = uuid 0, target = uuid 1, sourceHandle = None, targetHandle = None\<rparr>,
     \<lparr>edge_id = ''e-1'', source = uuid 1, target = uuid 2, sourceHandle = None, targetHandle = None\<rparr>,
     \<lparr>edge_id = ''e-2'', source = uuid 2, target = uuid 3, sourceHandle = None, targetHandle = None\<rparr>,
     \<lparr>edge_id = ''e-3'', source = uuid 2, target = uuid 4, sourceHandle = None, targetHandle = None\<rparr>,
     \<lparr>edge_id = ''e-4'', source = uuid 3, target = uuid 5, sourceHandle = None, targetHandle = None\<rparr>,
     \<lparr>edge_id = ''e-5'', source = uuid 5, target = uuid 6, sourceHandle = None, targetHandle = None\<rparr>,
     \<lparr>edge_id = ''e-6'', source = uuid 6, target = uuid 7, sourceHandle = None, targetHandle = None\<rparr>,
     \<lparr>edge_id = ''e-7'', source = uuid 7, target = uuid 0, sourceHandle = None, targetHandle = None\<rparr>,
     \<lparr>edge_id = ''e-8'', source = uuid 7, target = uuid 8, sourceHandle = None, targetHandle = None\<rparr>,
     \<lparr>edge_id = ''e-9'', source = uuid 8, target = uuid 9, sourceHandle = None, targetHandle = None\<rparr>,
     \<lparr>edge_id = ''e-10'', source = uuid 9, target = uuid 6, sourceHandle = None, targetHandle = None\<rparr>]"
proof -
  from build_eval [of uuid] obtain m where b: "build uuid = \<lparr>nodeMap = m, createdNodes =
    [\<lparr>node_id = uuid 0, label = ''User'', position = Some (400, 50)\<rparr>,
     \<lparr>node_id = uuid 1, label = ''Knowledge Base'', position = Some (200, 150)\<rparr>,
     \<lparr>node_id = uuid 2, label = ''AI Engine (Chain)'', position = Some (400, 250)\<rparr>,
     \<lparr>node_id = uuid 3, label = ''Retriever'', position = Some (250, 350)\<rparr>,
     \<lparr>node_id = uuid 4, label = ''API Endpoints'', position = Some (550, 350)\<rparr>,
     \<lparr>node_id = uuid 5, label = ''LLM Model'', position = Some (400, 350)\<rparr>,
     \<lparr>node_id = uuid 6, label = ''Prompt Template'', position = Some (400, 450)\<rparr>,
     \<lparr>node_id = uuid 7, label = ''Output/Results Formatted'', position = Some (400, 550)\<rparr>,
     \<lparr>node_id = uuid 8, label = ''Evaluation'', position = Some (250, 650)\<rparr>,
     \<lparr>node_id = uuid 9, label = ''Human Feedback'', position = Some (150, 750)\<rparr>],
    solutionEdges =
    [\<lparr>edge_id = ''e-0'', source = uuid 0, target = uuid 1, sourceHandle = None, targetHandle = None\<rparr>,
     \<lparr>edge_id = ''e-1'', source = uuid 1, target = uuid 2, sourceHandle = None, targetHandle = None\<rparr>,
     \<lparr>edge_id = ''e-2'', source = uuid 2, target = uuid 3, sourceHandle = None, targetHandle = None\<rparr>,
     \<lparr>edge_id = ''e-3'', source = uuid 2, target = uuid 4, sourceHandle = None, targetHandle = None\<rparr>,
     \<lparr>edge_id = ''e-4'', source = uuid 3, target = uuid 5, sourceHandle = None, targetHandle = None\<rparr>,
     \<lparr>edge_id = ''e-5'', source = uuid 5, target = uuid 6, sourceHandle = None, targetHandle = None\<rparr>,
     \<lparr>edge_id = ''e-6'', source = uuid 6, target = uuid 7, sourceHandle = None, targetHandle = None\<rparr>,
     \<lparr>edge_id = ''e-7'', source = uuid 7, target = uuid 0, sourceHandle = None, targetHandle = None\<rparr>,
     \<lparr>edge_id = ''e-8'', source = uuid 7, target = uuid 8, sourceHandle = None, targetHandle = None\<rparr>,
     \<lparr>edge_id = ''e-9'', source = uuid 8, target = uuid 9, sourceHandle = None, targetHandle = None\<rparr>,
     \<lparr>edge_id = ''e-10'', source = uuid 9, target = uuid 6, sourceHandle = None, targetHandle = None\<rparr>]\<rparr>"
    by blast
  show ?thesis by (simp only: b builder.simps)
qed

subsection \<open>The event loop\<close>

lemma next_timer_None: "next_timer ts = None \<longleftrightarrow> ts = []"
  by (induction ts) (auto split: option.splits)

lemma next_timer_least: "next_timer ts = Some t \<Longrightarrow> u \<in> set ts \<Longrightarrow> fst t \<le> fst u"
  by (induction ts arbitrary: t) (auto split: option.splits if_splits simp: next_timer_None)

lemma run_until_idle:
  "timers st = [] \<Longrightarrow> run_until limit st = st\<lparr>now := max (now st) limit\<rparr>"
  by (simp add: run_until.simps)

lemma run_until_wait:
  "next_timer (timers st) = Some t \<Longrightarrow> limit < fst t \<Longrightarrow>
   run_until limit st = st\<lparr>now := max (now st) limit\<rparr>"
  by (simp add: run_until.simps)

lemma run_until_fire:
  "next_timer (timers st) = Some t \<Longrightarrow> fst t \<le> limit \<Longrightarrow>
   run_until limit st =
     run_until limit (fire (snd t) (st\<lparr>now := max (now st) (fst t), timers := remove1 t (timers st)\<rparr>))"
  by (subst run_until.simps) simp

lemma fire_nodes: "nodes (fire f st) = nodes st"
  by (cases f) (auto simp: setTimeout_def Let_def)

lemma fire_edges: "set (edges st) \<subseteq> set (edges (fire f st))"
  by (cases f) (auto simp: setTimeout_def Let_def)

lemma fire_timers: "set (timers st) \<subseteq> set (timers (fire f st))"
  by (cases f) (auto simp: setTimeout_def Let_def)

lemma fire_AppendEdge: "e \<in> set (edges (fire (AppendEdge e b) st))"
  by (auto simp: setTimeout_def Let_def)

lemma run_until_nodes: "nodes (run_until limit st) = nodes st"
proof (induction limit st rule: run_until.induct)
  case (1 limit st)
  show ?case
  proof (cases "next_timer (timers st)")
    case None
    then show ?thesis by (simp add: run_until.simps)
  next
    case (Some t)
    show ?thesis
    proof (cases "fst t \<le> limit")
      case True
      from "1.IH" [OF Some True] run_until_fire [OF Some True] show ?thesis
        by (simp add: fire_nodes)
    next
      case False
      with Some show ?thesis by (simp add: run_until_wait)
    qed
  qed
qed

lemma run_until_edges: "set (edges st) \<subseteq> set (edges (run_until limit st))"
proof (induction limit st rule: run_until.induct)
  case (1 limit st)
  show ?case
  proof (cases "next_timer (timers st)")
    case None
    then show ?thesis by (simp add: run_until.simps)
  next
    case (Some t)
    show ?thesis
    proof (cases "fst t \<le> limit")
      case True
      let ?st = "st\<lparr>now := max (now st) (fst t), timers := remove1 t (timers st)\<rparr>"
      have "set (edges st) \<subseteq> set (edges (fire (snd t) ?st))"
        using fire_edges [of ?st "snd t"] by simp
      with "1.IH" [OF Some True] run_until_fire [OF Some True] show ?thesis
        by auto
    next
      case False
      with Some show ?thesis by (simp add: run_until_wait)
    qed
  qed
qed

lemma run_until_due:
  "(d, AppendEdge e b) \<in> set (timers st) \<Longrightarrow> d \<le> limit \<Longrightarrow>
   e \<in> set (edges (run_until limit st))"
proof (induction limit st rule: run_until.induct)
  case (1 limit st)
  from "1.prems"(1) obtain t where Some: "next_timer (timers st) = Some t"
    by (cases "next_timer (timers st)") (auto simp: next_timer_None)
  from next_timer_least [OF Some "1.prems"(1)] "1.prems"(2) have due: "fst t \<le> limit"
    by simp
  let ?st = "st\<lparr>now := max (now st) (fst t), timers := remove1 t (timers st)\<rparr>"
  note unfold = run_until_fire [OF Some due]
  show ?case
  proof (cases "t = (d, AppendEdge e b)")
    case True
    then have "e \<in> set (edges (fire (snd t) ?st))"
      using fire_AppendEdge [of e b ?st] by simp
    with run_until_edges [of "fire (snd t) ?st" limit] unfold show ?thesis
      by auto
  next
    case False
    with "1.prems"(1) have "(d, AppendEdge e b) \<in> set (timers ?st)"
      by simp
    with fire_timers [of ?st "snd t"] have "(d, AppendEdge e b) \<in> set (timers (fire (snd t) ?st))"
      by blast
    from "1.IH" [OF Some due this "1.prems"(2)] unfold show ?thesis
      by simp
  qed
qed

subsection \<open>What the reveal schedules\<close>

lemma schedule_timers:
  "timers (schedule len xs st) =
     timers st @ map (\<lambda>(i, e). (now st + i * 100, AppendEdge e (i = len - 1))) xs"
proof (induction xs arbitrary: st)
  case Nil
  show ?case by simp
next
  case (Cons x xs)
  obtain i e where x: "x = (i, e)" by (cases x)
  show ?case
    by (simp add: x Cons.IH setTimeout_def)
qed

lemma schedule_rest:
  "nodes (schedule len xs st) = nodes st \<and> edges (schedule len xs st) = edges st
   \<and> now (schedule len xs st) = now st \<and> effects (schedule len xs st) = effects st
   \<and> game_result (schedule len xs st) = game_result st
   \<and> showSolution (schedule len xs st) = showSolution st
   \<and> showResultOverlay (schedule len xs st) = showResultOverlay st"
proof (induction xs arbitrary: st)
  case Nil
  show ?case by simp
next
  case (Cons x xs)
  obtain i e where x: "x = (i, e)" by (cases x)
  show ?case
    by (simp add: x Cons.IH setTimeout_def)
qed

subsection \<open>Counting the matched pairs\<close>

lemma find_Some_mem: "find P xs = Some x \<Longrightarrow> x \<in> set xs \<and> P x"
  by (induction xs) (auto split: if_splits)

lemma find_case:
  "(case find P es of None \<Rightarrow> (n::nat) | Some m \<Rightarrow> n + 1) = (if \<exists>e\<in>set es. P e then n + 1 else n)"
proof (cases "find P es")
  case None
  then have "\<not> (\<exists>e\<in>set es. P e)" by (simp add: find_None_iff)
  with None show ?thesis by simp
next
  case (Some m)
  with find_Some_mem [OF Some] show ?thesis by auto
qed

lemma check_pair_alt:
  "check_pair ns es (s, t) n =
     (case find (\<lambda>n. label n = s) ns of
        None \<Rightarrow> n
      | Some a \<Rightarrow>
          (case find (\<lambda>n. label n = t) ns of
             None \<Rightarrow> n
           | Some b \<Rightarrow>
               if \<exists>e\<in>set es. source e = node_id a \<and> target e = node_id b then n + 1 else n))"
  by (simp add: check_pair_def find_case split: option.splits)

lemma check_pair_add: "check_pair ns es p n = n + check_pair ns es p 0"
  by (cases p) (auto simp: check_pair_alt split: option.splits)

lemma check_pair_le1: "check_pair ns es p 0 \<le> 1"
  by (cases p) (auto simp: check_pair_alt split: option.splits)

lemma check_pair_mono:
  "set es \<subseteq> set es' \<Longrightarrow> check_pair ns es p 0 \<le> check_pair ns es' p 0"
  by (cases p) (auto simp: check_pair_alt split: option.splits)

lemma fold_check_pair:
  "fold (check_pair ns es) ps n = n + sum_list (map (\<lambda>p. check_pair ns es p 0) ps)"
proof (induction ps arbitrary: n)
  case Nil
  show ?case by simp
next
  case (Cons p ps)
  have "fold (check_pair ns es) (p # ps) n = fold (check_pair ns es) ps (check_pair ns es p n)"
    by simp
  also have "\<dots> = check_pair ns es p n + sum_list (map (\<lambda>p. check_pair ns es p 0) ps)"
    by (rule Cons.IH)
  also have "check_pair ns es p n = n + check_pair ns es p 0"
    by (rule check_pair_add)
  finally show ?case by simp
qed

lemma count_correct_sum:
  "count_correct ns es = sum_list (map (\<lambda>p. check_pair ns es p 0) expectedFlow)"
  by (simp add: count_correct_def fold_check_pair)

lemma sum_le_length:
  "(\<And>x. f x \<le> (1::nat)) \<Longrightarrow> sum_list (map f xs) \<le> length xs"
proof (induction xs)
  case Nil
  show ?case by simp
next
  case (Cons x xs)
  from Cons.prems [of x] Cons.IH [OF Cons.prems] show ?case by simp
qed

lemma sum_eq_length:
  "(\<And>x. f x \<le> (1::nat)) \<Longrightarrow>
   sum_list (map f xs) = length xs \<longleftrightarrow> (\<forall>x\<in>set xs. f x = 1)"
proof (induction xs)
  case Nil
  show ?case by simp
next
  case (Cons x xs)
  have a: "f x \<le> 1" by (rule Cons.prems)
  have b: "sum_list (map f xs) \<le> length xs" using Cons.prems by (rule sum_le_length)
  from Cons.IH [OF Cons.prems] a b show ?case by auto
qed

lemma count_correct_le: "count_correct ns es \<le> length expectedFlow"
  unfolding count_correct_sum by (rule sum_le_length) (rule check_pair_le1)

lemma count_correct_mono:
  "set es \<subseteq> set es' \<Longrightarrow> count_correct ns es \<le> count_correct ns es'"
  unfolding count_correct_sum
  by (rule sum_list_mono) (simp add: check_pair_mono)

lemma length_expectedFlow: "length expectedFlow = 11"
  by (simp add: expectedFlow_def)

lemma count_solution:
  "count_correct (createdNodes (build uuid)) (solutionEdges (build uuid)) = 11"
  by (simp add: count_correct_def expectedFlow_def build_nodes build_edges check_pair_alt)

subsection \<open>The result of a submission\<close>

lemma handleSubmit_result:
  "game_result (handleSubmit st) =
     Some \<lparr>correct = count_correct (nodes st) (edges st), total = 11,
           accuracy = toFixed1 (of_nat (count_correct (nodes st) (edges st)) / 11 * 100),
           feedback = feedback_of (of_nat (count_correct (nodes st) (edges st)) / 11 * 100)\<rparr>"
  by (simp add: handleSubmit_def Let_def length_expectedFlow)

lemma handleSubmit_effects:
  "effects (handleSubmit st) =
     effects st @ (if 8 \<le> count_correct (nodes st) (edges st) then [PlaySuccess, Confetti]
                   else [PlayError])"
  by (simp add: handleSubmit_def Let_def length_expectedFlow)

lemma handleSubmit_frame:
  "nodes (handleSubmit st) = nodes st" "edges (handleSubmit st) = edges st"
  "timers (handleSubmit st) = timers st" "now (handleSubmit st) = now st"
  "showSolution (handleSubmit st) = showSolution st"
  by (simp_all add: handleSubmit_def Let_def)

lemma floor_rat_numeral:
  "\<lfloor>(numeral a :: rat) / numeral b\<rfloor> = numeral a div numeral b"
  using floor_divide_of_int_eq [of "numeral a" "numeral b", where ?'a = rat] by simp

lemma tenths_table:
  "map (\<lambda>n. tenths (of_nat n / 11 * 100)) [0, 1, 2, 3, 4, 5, 6, 7, 8, 9, 10, 11] =
     [0, 91, 182, 273, 364, 455, 545, 636, 727, 818, 909, 1000]"
  by (simp add: tenths_def floor_rat_numeral)

lemma accuracy_table:
  "map (\<lambda>n. toFixed1 (of_nat n / 11 * 100)) [0, 1, 2, 3, 4, 5, 6, 7, 8, 9, 10, 11] =
     [''0.0'', ''9.1'', ''18.2'', ''27.3'', ''36.4'', ''45.5'', ''54.5'', ''63.6'', ''72.7'',
      ''81.8'', ''90.9'', ''100.0'']"
  using tenths_table by (simp add: toFixed1_def show_nat.simps digit_char_def)

lemma feedback_table:
  "map (\<lambda>n. feedback_of (of_nat n / 11 * 100)) [0, 1, 2, 3, 4, 5, 6, 7, 8, 9, 10, 11] =
     [msg_needs_work, msg_needs_work, msg_needs_work, msg_needs_work, msg_needs_work,
      msg_needs_work, msg_fair, msg_fair, msg_good, msg_good, msg_excellent, msg_excellent]"
  using tenths_table by (simp add: feedback_of_def parseFloat_toFixed1_def)

subsection \<open>The state after a reveal\<close>

lemma handleShowSolution_fields:
  "nodes (handleShowSolution uuid st) = createdNodes (build uuid)"
  "edges (handleShowSolution uuid st) = []"
  "game_result (handleShowSolution uuid st) = None"
  "showSolution (handleShowSolution uuid st) = True"
  "now (handleShowSolution uuid st) = now st"
  "effects (handleShowSolution uuid st) = effects st"
  "timers (handleShowSolution uuid st) =
     timers st @ map (\<lambda>(i, e). (now st + i * 100, AppendEdge e (i = length (solutionEdges (build uuid)) - 1)))
                   (enumerate 0 (solutionEdges (build uuid)))"
  by (simp_all add: handleShowSolution_def Let_def schedule_rest schedule_timers)

lemma reveal_all_edges:
  assumes "now st + 1000 \<le> limit"
  shows "set (solutionEdges (build uuid)) \<subseteq> set (edges (run_until limit (handleShowSolution uuid st)))"
proof
  fix e
  assume "e \<in> set (solutionEdges (build uuid))"
  then obtain i where i: "i < length (solutionEdges (build uuid))" "solutionEdges (build uuid) ! i = e"
    by (auto simp: in_set_conv_nth)
  let ?len = "length (solutionEdges (build uuid))"
  have len: "?len = 11" by (simp add: build_edges)
  have "(i, e) \<in> set (enumerate 0 (solutionEdges (build uuid)))"
    using i by (simp add: in_set_enumerate_eq)
  then have "(now st + i * 100, AppendEdge e (i = ?len - 1)) \<in> set (timers (handleShowSolution uuid st))"
    by (force simp: handleShowSolution_fields)
  moreover have "now st + i * 100 \<le> limit"
    using i(1) len assms by simp
  ultimately show "e \<in> set (edges (run_until limit (handleShowSolution uuid st)))"
    by (rule run_until_due)
qed

lemma reveal_then_submit_aux:
  assumes "now st + 1000 \<le> limit"
  shows "count_correct (nodes (run_until limit (handleShowSolution uuid st)))
           (edges (run_until limit (handleShowSolution uuid st))) = 11"
proof -
  let ?st = "run_until limit (handleShowSolution uuid st)"
  have "nodes ?st = createdNodes (build uuid)"
    by (simp add: run_until_nodes handleShowSolution_fields)
  moreover have "count_correct (createdNodes (build uuid)) (solutionEdges (build uuid))
      \<le> count_correct (createdNodes (build uuid)) (edges ?st)"
    by (rule count_correct_mono) (rule reveal_all_edges [OF assms])
  moreover have "count_correct (createdNodes (build uuid)) (edges ?st) \<le> 11"
    using count_correct_le [of "createdNodes (build uuid)" "edges ?st"]
    by (simp add: length_expectedFlow)
  ultimately show ?thesis
    using count_solution [of uuid] by simp
qed

subsection \<open>Running a reveal\<close>

lemma next_timer_head:
  "\<forall>u\<in>set ts. d \<le> fst u \<Longrightarrow> next_timer ((d, f) # ts) = Some (d, f)"
proof (cases "next_timer ts")
  case None
  then show ?thesis by simp
next
  case (Some u)
  assume "\<forall>u\<in>set ts. d \<le> fst u"
  with next_timer_mem [OF Some] have "d \<le> fst u" by blast
  with Some show ?thesis by simp
qed

lemma run_until_now: "now (run_until limit st) = max (now st) limit"
proof (induction limit st rule: run_until.induct)
  case (1 limit st)
  show ?case
  proof (cases "next_timer (timers st)")
    case None
    then show ?thesis by (simp add: run_until.simps)
  next
    case (Some t)
    show ?thesis
    proof (cases "fst t \<le> limit")
      case True
      have "now (fire (snd t) (st\<lparr>now := max (now st) (fst t), timers := remove1 t (timers st)\<rparr>))
          = max (now st) (fst t)"
        by (cases "snd t") (auto simp: setTimeout_def Let_def)
      with "1.IH" [OF Some True] run_until_fire [OF Some True] True show ?thesis
        by simp
    next
      case False
      with Some show ?thesis by (simp add: run_until_wait)
    qed
  qed
qed

lemma run_until_fitview:
  assumes "timers st = [(d, CallFitView)]"
  shows "edges (run_until limit st) = edges st"
    and "effects (run_until limit st) = effects st @ (if d \<le> limit then [FitViewCalled] else [])"
    and "timers (run_until limit st) = (if d \<le> limit then [] else [(d, CallFitView)])"
proof -
  have nt: "next_timer (timers st) = Some (d, CallFitView)" using assms by simp
  show "edges (run_until limit st) = edges st"
    using assms run_until_fire [OF nt] run_until_wait [OF nt]
    by (cases "d \<le> limit") (simp_all add: run_until_idle)
  show "effects (run_until limit st) = effects st @ (if d \<le> limit then [FitViewCalled] else [])"
    using assms run_until_fire [OF nt] run_until_wait [OF nt]
    by (cases "d \<le> limit") (simp_all add: run_until_idle)
  show "timers (run_until limit st) = (if d \<le> limit then [] else [(d, CallFitView)])"
    using assms run_until_fire [OF nt] run_until_wait [OF nt]
    by (cases "d \<le> limit") (simp_all add: run_until_idle)
qed

lemma reveal_run:
  assumes "timers st = map (\<lambda>(i, e). (T + i * 100, AppendEdge e (i = n - 1))) (enumerate k es)"
    and "k + length es = n" and "now st \<le> T + k * 100"
  shows "edges (run_until (T + t) st) = edges st @ take (Suc (t div 100) - k) es
    \<and> effects (run_until (T + t) st) =
        effects st @ (if es \<noteq> [] \<and> n * 100 \<le> t then [FitViewCalled] else [])
    \<and> timers (run_until (T + t) st) =
        map (\<lambda>(i, e). (T + i * 100, AppendEdge e (i = n - 1)))
          (enumerate (k + (Suc (t div 100) - k)) (drop (Suc (t div 100) - k) es))
        @ (if es \<noteq> [] \<and> (n - 1) * 100 \<le> t \<and> t < n * 100 then [(T + n * 100, CallFitView)] else [])"
  using assms
proof (induction es arbitrary: k st)
  case Nil
  then show ?case by (simp add: run_until_idle)
next
  case (Cons e es)
  let ?f = "\<lambda>(i, e). (T + i * 100, AppendEdge e (i = n - 1))"
  let ?head = "(T + k * 100, AppendEdge e (k = n - 1))"
  let ?rest = "map ?f (enumerate (Suc k) es)"
  have tm: "timers st = ?head # ?rest" using Cons.prems(1) by simp
  have "\<forall>u\<in>set ?rest. T + k * 100 \<le> fst u"
    by (auto simp: in_set_enumerate_eq)
  then have nt: "next_timer (timers st) = Some ?head"
    unfolding tm by (rule next_timer_head)
  show ?case
  proof (cases "k * 100 \<le> t")
    case False
    then have lt: "T + t < fst ?head" by simp
    from False have j: "Suc (t div 100) - k = 0" by arith
    from False Cons.prems(2) have "\<not> n * 100 \<le> t" "\<not> (n - 1) * 100 \<le> t" by auto
    with run_until_wait [OF nt lt] j Cons.prems(1) show ?thesis by simp
  next
    case True
    then have due: "fst ?head \<le> T + t" by simp
    from True have kt: "k \<le> t div 100" by arith
    define j where "j = t div 100 - k"
    from kt have j: "Suc (t div 100) - k = Suc j" "Suc (t div 100) - Suc k = j"
      by (simp_all add: j_def Suc_diff_le)
    let ?st0 = "st\<lparr>now := max (now st) (fst ?head), timers := remove1 ?head (timers st)\<rparr>"
    have st0: "?st0 = st\<lparr>now := T + k * 100, timers := ?rest\<rparr>"
      using Cons.prems(3) by (simp add: tm max_def)
    note step = run_until_fire [OF nt due, unfolded st0]
    show ?thesis
    proof (cases "es = []")
      case False
      then have flag: "k \<noteq> n - Suc 0" using Cons.prems(2) by (cases es) auto
      let ?st' = "st\<lparr>now := T + k * 100, timers := ?rest, edges := edges st @ [e]\<rparr>"
      have fired: "fire (snd ?head) (st\<lparr>now := T + k * 100, timers := ?rest\<rparr>) = ?st'"
        using flag by (simp add: Let_def)
      have "timers ?st' = map ?f (enumerate (Suc k) es)" by simp
      moreover have "Suc k + length es = n" using Cons.prems(2) by simp
      moreover have "now ?st' \<le> T + Suc k * 100" by simp
      ultimately have IH: "edges (run_until (T + t) ?st') = edges ?st' @ take (Suc (t div 100) - Suc k) es
        \<and> effects (run_until (T + t) ?st') =
            effects ?st' @ (if es \<noteq> [] \<and> n * 100 \<le> t then [FitViewCalled] else [])
        \<and> timers (run_until (T + t) ?st') =
            map ?f (enumerate (Suc k + (Suc (t div 100) - Suc k)) (drop (Suc (t div 100) - Suc k) es))
            @ (if es \<noteq> [] \<and> (n - 1) * 100 \<le> t \<and> t < n * 100 then [(T + n * 100, CallFitView)] else [])"
        by (rule Cons.IH)
      from IH [unfolded j(2)] step fired False show ?thesis
        unfolding j(1) by simp
    next
      case True
      then have n: "n = Suc k" using Cons.prems(2) by simp
      let ?st' = "st\<lparr>now := T + k * 100, timers := [(T + k * 100 + 100, CallFitView)],
                     edges := edges st @ [e]\<rparr>"
      have fired: "fire (snd ?head) (st\<lparr>now := T + k * 100, timers := ?rest\<rparr>) = ?st'"
        by (simp add: n True setTimeout_def Let_def)
      have tm': "timers ?st' = [(T + k * 100 + 100, CallFitView)]" by simp
      from run_until_fitview [OF tm', of "T + t"] step fired \<open>k * 100 \<le> t\<close> show ?thesis
        unfolding j(1) by (auto simp: n True)
    qed
  qed
qed

lemma length_solutionEdges: "length (solutionEdges (build uuid)) = 11"
  by (simp add: build_edges)


lemma reveal_from_idle:
  assumes "timers st = []"
  shows "edges (run_until (now st + t) (handleShowSolution uuid st)) =
           take (Suc (t div 100)) (solutionEdges (build uuid))"
    and "effects (run_until (now st + t) (handleShowSolution uuid st)) =
           effects st @ (if 1100 \<le> t then [FitViewCalled] else [])"
    and "t < 1000 \<Longrightarrow> timers (run_until (now st + t) (handleShowSolution uuid st)) =
           map (\<lambda>(i, e). (now st + i * 100, AppendEdge e (i = 11 - 1)))
             (enumerate (Suc (t div 100)) (drop (Suc (t div 100)) (solutionEdges (build uuid))))"
proof -
  let ?st1 = "handleShowSolution uuid st"
  let ?sol = "solutionEdges (build uuid)"
  have tm: "timers ?st1 = map (\<lambda>(i, e). (now st + i * 100, AppendEdge e (i = 11 - 1))) (enumerate 0 ?sol)"
    using assms by (simp add: handleShowSolution_fields length_solutionEdges)
  have len: "0 + length ?sol = 11" by (simp add: length_solutionEdges)
  have nw: "now ?st1 \<le> now st + 0 * 100" by (simp add: handleShowSolution_fields)
  have ne: "?sol \<noteq> []" using length_solutionEdges [of uuid] by auto
  note run = reveal_run [OF tm len nw, of t]
  from run show "edges (run_until (now st + t) ?st1) = take (Suc (t div 100)) ?sol"
    by (simp add: handleShowSolution_fields)
  from run ne show "effects (run_until (now st + t) ?st1) =
      effects st @ (if 1100 \<le> t then [FitViewCalled] else [])"
    by (simp add: handleShowSolution_fields)
  assume "t < 1000"
  with run show "timers (run_until (now st + t) ?st1) =
      map (\<lambda>(i, e). (now st + i * 100, AppendEdge e (i = 11 - 1)))
        (enumerate (Suc (t div 100)) (drop (Suc (t div 100)) ?sol))"
    by simp
qed


lemma solution_edges_follow_flow:
  "list_all2 (\<lambda>e (s, t).
       map_option node_id (find (\<lambda>n. label n = s) (createdNodes (build uuid))) = Some (source e)
     \<and> map_option node_id (find (\<lambda>n. label n = t) (createdNodes (build uuid))) = Some (target e))
     (solutionEdges (build uuid)) expectedFlow"
  by (simp add: build_nodes build_edges expectedFlow_def)

lemma check_pair_no_edges: "check_pair ns [] p 0 = 0"
  by (cases p) (simp add: check_pair_alt split: option.splits)

lemma count_correct_no_edges: "count_correct ns [] = 0"
  by (simp add: count_correct_sum check_pair_no_edges)

subsection \<open>Two groups of timers run independently\<close>

lemma append_in_shuffles: "xs @ ys \<in> shuffles xs ys"
  by (induction xs) (simp_all add: Cons_in_shuffles_leftI)

lemma snoc_in_shuffles_single: "ys @ [a] \<in> shuffles [a] ys"
  by (induction ys) (simp_all add: Cons_in_shuffles_rightI)

lemma snoc_in_shuffles: "zs \<in> shuffles xs ys \<Longrightarrow> zs @ [a] \<in> shuffles (xs @ [a]) ys"
proof (induction xs ys arbitrary: zs rule: shuffles.induct)
  case (1 ys)
  then show ?case by (simp add: snoc_in_shuffles_single)
next
  case (2 xs)
  then show ?case by simp
next
  case (3 x xs y ys)
  from "3.prems" consider zs' where "zs = x # zs'" "zs' \<in> shuffles xs (y # ys)"
    | zs' where "zs = y # zs'" "zs' \<in> shuffles (x # xs) ys"
    by auto
  then show ?case
  proof cases
    case 1
    from "3.IH"(1) [OF 1(2)] have "x # (zs' @ [a]) \<in> shuffles (x # (xs @ [a])) (y # ys)"
      by (rule Cons_in_shuffles_leftI)
    with 1(1) show ?thesis by simp
  next
    case 2
    from "3.IH"(2) [OF 2(2)] have "y # (zs' @ [a]) \<in> shuffles ((x # xs) @ [a]) (y # ys)"
      by (rule Cons_in_shuffles_rightI)
    with 2(1) show ?thesis by simp
  qed
qed

lemma next_timer_Cons_iff:
  "next_timer (x # zs) = Some t \<longleftrightarrow>
     (t = x \<and> (\<forall>u\<in>set zs. fst x \<le> fst u)) \<or> (next_timer zs = Some t \<and> fst t < fst x)"
proof (cases "next_timer zs")
  case None
  then show ?thesis by (auto simp: next_timer_None)
next
  case (Some u)
  from next_timer_mem [OF Some] have mem: "u \<in> set zs" .
  have least: "\<forall>v\<in>set zs. fst u \<le> fst v" using next_timer_least [OF Some] by blast
  show ?thesis
  proof (cases "fst x \<le> fst u")
    case True
    with Some least show ?thesis by (auto intro: order_trans)
  next
    case False
    with Some mem show ?thesis by auto
  qed
qed


lemma next_timer_split_left:
  assumes IH: "\<And>t. next_timer zs = Some t \<Longrightarrow>
      (next_timer xs = Some t \<and> remove1 t zs \<in> shuffles (remove1 t xs) ys)
      \<or> (next_timer ys = Some t \<and> remove1 t zs \<in> shuffles xs (remove1 t ys))"
    and sh: "zs \<in> shuffles xs ys"
    and nt: "next_timer (z # zs) = Some t"
  shows "(next_timer (z # xs) = Some t \<and> remove1 t (z # zs) \<in> shuffles (remove1 t (z # xs)) ys)
      \<or> (next_timer ys = Some t \<and> remove1 t (z # zs) \<in> shuffles (z # xs) (remove1 t ys))"
proof -
  from nt consider "t = z" "\<forall>u\<in>set zs. fst z \<le> fst u" | "next_timer zs = Some t" "fst t < fst z"
    unfolding next_timer_Cons_iff by blast
  then show ?thesis
  proof cases
    case 1
    from set_shuffles [OF sh] 1(2) have "\<forall>u\<in>set xs. fst z \<le> fst u" by simp
    then have "next_timer (z # xs) = Some z" unfolding next_timer_Cons_iff by simp
    with 1(1) sh show ?thesis by (simp del: next_timer.simps)
  next
    case 2
    from 2(2) have ne: "t \<noteq> z" by auto
    from IH [OF 2(1)] show ?thesis
    proof
      assume a: "next_timer xs = Some t \<and> remove1 t zs \<in> shuffles (remove1 t xs) ys"
      then have "next_timer (z # xs) = Some t" using 2(2) unfolding next_timer_Cons_iff by simp
      moreover from a have "z # remove1 t zs \<in> shuffles (z # remove1 t xs) ys"
        by (simp add: Cons_in_shuffles_leftI)
      ultimately show ?thesis using ne by (simp del: next_timer.simps)
    next
      assume b: "next_timer ys = Some t \<and> remove1 t zs \<in> shuffles xs (remove1 t ys)"
      then have "z # remove1 t zs \<in> shuffles (z # xs) (remove1 t ys)"
        by (simp add: Cons_in_shuffles_leftI)
      with b ne show ?thesis by (simp del: next_timer.simps)
    qed
  qed
qed

lemma next_timer_split:
  "zs \<in> shuffles xs ys \<Longrightarrow> next_timer zs = Some t \<Longrightarrow>
     (next_timer xs = Some t \<and> remove1 t zs \<in> shuffles (remove1 t xs) ys)
     \<or> (next_timer ys = Some t \<and> remove1 t zs \<in> shuffles xs (remove1 t ys))"
proof (induction zs arbitrary: xs ys t)
  case Nil
  then show ?case by simp
next
  case (Cons z zs)
  from Cons.prems(1) consider xs' where "xs = z # xs'" "zs \<in> shuffles xs' ys"
    | ys' where "ys = z # ys'" "zs \<in> shuffles xs ys'"
    by (auto simp: Cons_in_shuffles_iff neq_Nil_conv)
  then show ?case
  proof cases
    case 1
    have "(next_timer (z # xs') = Some t \<and> remove1 t (z # zs) \<in> shuffles (remove1 t (z # xs')) ys)
      \<or> (next_timer ys = Some t \<and> remove1 t (z # zs) \<in> shuffles (z # xs') (remove1 t ys))"
      using Cons.IH [OF 1(2)] 1(2) Cons.prems(2) by (rule next_timer_split_left)
    with 1(1) show ?thesis by (simp del: next_timer.simps)
  next
    case 2
    from 2(2) have sh: "zs \<in> shuffles ys' xs" by (simp add: shuffles_commutes)
    have IH: "\<And>t. next_timer zs = Some t \<Longrightarrow>
      (next_timer ys' = Some t \<and> remove1 t zs \<in> shuffles (remove1 t ys') xs)
      \<or> (next_timer xs = Some t \<and> remove1 t zs \<in> shuffles ys' (remove1 t xs))"
      using Cons.IH [OF 2(2)] by (auto simp: shuffles_commutes)
    have "(next_timer (z # ys') = Some t \<and> remove1 t (z # zs) \<in> shuffles (remove1 t (z # ys')) xs)
      \<or> (next_timer xs = Some t \<and> remove1 t (z # zs) \<in> shuffles (z # ys') (remove1 t xs))"
      using IH sh Cons.prems(2) by (rule next_timer_split_left)
    with 2(1) show ?thesis by (auto simp: shuffles_commutes simp del: next_timer.simps)
  qed
qed

lemma independent_sym: "independent c a b \<Longrightarrow> independent c b a"
  by (auto simp: independent_def shuffles_commutes)

lemma independent_tick:
  "independent c a b \<Longrightarrow>
   independent (c\<lparr>now := max (now c) L\<rparr>) (a\<lparr>now := max (now a) L\<rparr>) (b\<lparr>now := max (now b) L\<rparr>)"
proof -
  assume i: "independent c a b"
  have clocks: "max (now a) L \<le> max (now c) L" "max (now b) L \<le> max (now c) L"
    using i unfolding independent_def by arith+
  have "max (now c) L \<le> max (max (now a) L) (fst u) \<and> max (now c) L \<le> max (max (now b) L) (fst u)"
    if "u \<in> set (timers c)" for u
  proof -
    from i that have "now c \<le> max (now a) (fst u)" "now c \<le> max (now b) (fst u)"
      unfolding independent_def by blast+
    then show ?thesis by arith
  qed
  with i clocks show ?thesis
    unfolding independent_def by simp
qed

lemma run_until_quiet:
  assumes "\<forall>u\<in>set (timers st). L < fst u"
  shows "run_until L st = st\<lparr>now := max (now st) L\<rparr>"
proof (cases "next_timer (timers st)")
  case None
  then show ?thesis by (simp add: run_until_idle next_timer_None)
next
  case (Some t)
  with assms next_timer_mem [OF Some] show ?thesis by (simp add: run_until_wait)
qed

lemma run_until_after:
  "next_timer (timers st) = Some t \<Longrightarrow> fst t \<le> L \<Longrightarrow>
   run_until L st = run_until L (after_timer t st)"
  unfolding after_timer_def by (rule run_until_fire)


lemma independent_step:
  assumes ind: "independent c a b"
    and ntc: "next_timer (timers c) = Some t"
    and nta: "next_timer (timers a) = Some t"
    and sh: "remove1 t (timers c) \<in> shuffles (remove1 t (timers a)) (timers b)"
  shows "independent (after_timer t c) (after_timer t a) b"
proof -
  obtain d f where t: "t = (d, f)" by (cases t)
  from next_timer_mem [OF ntc] have mem: "t \<in> set (timers c)" .
  from ind mem have "now c \<le> max (now a) d" "now a \<le> now c" "now b \<le> now c"
    unfolding independent_def t by auto
  then have clock: "max (now c) d = max (now a) d" and nb: "now b \<le> max (now c) d"
    by arith+
  have rest: "max (now c) d \<le> max (now b) (fst u)" if "u \<in> set (remove1 t (timers c))" for u
  proof -
    from that have u: "u \<in> set (timers c)" using set_remove1_subset [of t "timers c"] by blast
    from next_timer_least [OF ntc u] have "d \<le> fst u" by (simp add: t)
    moreover from ind u have "now c \<le> max (now b) (fst u)" unfolding independent_def by blast
    ultimately show ?thesis by arith
  qed
  from ind have E: "edges c \<in> shuffles (edges a) (edges b)"
    and F: "effects c \<in> shuffles (effects a) (effects b)"
    unfolding independent_def by blast+
  show ?thesis
  proof (cases f)
    case CallFitView
    from F have "effects c @ [FitViewCalled] \<in> shuffles (effects a @ [FitViewCalled]) (effects b)"
      by (rule snoc_in_shuffles)
    with sh E clock nb rest show ?thesis
      unfolding independent_def after_timer_def t CallFitView by simp
  next
    case (AppendEdge e is_last)
    from E have E': "edges c @ [e] \<in> shuffles (edges a @ [e]) (edges b)"
      by (rule snoc_in_shuffles)
    from sh have T': "remove1 t (timers c) @ [(max (now c) d + 100, CallFitView)]
        \<in> shuffles (remove1 t (timers a) @ [(max (now c) d + 100, CallFitView)]) (timers b)"
      by (rule snoc_in_shuffles)
    show ?thesis
    proof (cases is_last)
      case False
      with sh E' F clock nb rest show ?thesis
        unfolding independent_def after_timer_def t AppendEdge by simp
    next
      case True
      with T' E' F clock nb rest show ?thesis
        unfolding independent_def after_timer_def t AppendEdge
        by (auto simp: setTimeout_def Let_def)
    qed
  qed
qed

lemma independent_run:
  "independent c a b \<Longrightarrow> independent (run_until L c) (run_until L a) (run_until L b)"
proof (induction L c arbitrary: a b rule: run_until.induct)
  case (1 L c)
  note ind = "1.prems"
  from ind have sh: "timers c \<in> shuffles (timers a) (timers b)"
    unfolding independent_def by blast
  note sets = set_shuffles [OF sh]
  show ?case
  proof (cases "next_timer (timers c)")
    case None
    then have "timers c = []" by (simp add: next_timer_None)
    with sh have "timers a = []" "timers b = []" by simp_all
    with \<open>timers c = []\<close> independent_tick [OF ind, of L] show ?thesis
      by (simp add: run_until_idle)
  next
    case (Some t)
    show ?thesis
    proof (cases "fst t \<le> L")
      case False
      have "\<forall>u\<in>set (timers c). L < fst u"
        using next_timer_least [OF Some] False by (auto simp: not_le intro: less_le_trans)
      with sets have "\<forall>u\<in>set (timers a). L < fst u" "\<forall>u\<in>set (timers b). L < fst u"
        by auto
      with \<open>\<forall>u\<in>set (timers c). L < fst u\<close> independent_tick [OF ind, of L] show ?thesis
        by (simp add: run_until_quiet)
    next
      case True
      from next_timer_split [OF sh Some] show ?thesis
      proof
        assume l: "next_timer (timers a) = Some t
          \<and> remove1 t (timers c) \<in> shuffles (remove1 t (timers a)) (timers b)"
        then have "independent (after_timer t c) (after_timer t a) b"
          using ind Some by (intro independent_step) auto
        then have "independent (run_until L (after_timer t c)) (run_until L (after_timer t a))
            (run_until L b)"
          unfolding after_timer_def by (rule "1.IH" [OF Some True])
        with l Some True show ?thesis by (simp add: run_until_after [symmetric])
      next
        assume r: "next_timer (timers b) = Some t
          \<and> remove1 t (timers c) \<in> shuffles (timers a) (remove1 t (timers b))"
        then have "independent (after_timer t c) (after_timer t b) a"
          using independent_sym [OF ind] Some
          by (intro independent_step) (auto simp: shuffles_commutes)
        then have "independent (run_until L (after_timer t c)) (run_until L (after_timer t b))
            (run_until L a)"
          unfolding after_timer_def by (rule "1.IH" [OF Some True])
        then have "independent (run_until L (after_timer t c)) (run_until L a)
            (run_until L (after_timer t b))"
          by (rule independent_sym)
        with r Some True show ?thesis by (simp add: run_until_after [symmetric])
      qed
    qed
  qed
qed

lemma reveal_interleaved:
  "edges (run_until (now st + t) (handleShowSolution uuid st))
     \<in> shuffles (take (Suc (t div 100)) (solutionEdges (build uuid)))
         (edges (run_until (now st + t) (st\<lparr>edges := []\<rparr>)))"
  "effects (run_until (now st + t) (handleShowSolution uuid st))
     \<in> shuffles (if 1100 \<le> t then [FitViewCalled] else [])
         (effects (run_until (now st + t) (st\<lparr>edges := []\<rparr>)))"
proof -
  let ?c = "handleShowSolution uuid st"
  let ?a = "st\<lparr>edges := []\<rparr>"
  let ?st' = "st\<lparr>timers := [], effects := []\<rparr>"
  let ?b = "handleShowSolution uuid ?st'"
  have idle: "timers ?st' = []" and nw: "now ?st' = now st" and fx: "effects ?st' = []"
    by simp_all
  have "timers ?c = timers ?a @ timers ?b"
    by (simp add: handleShowSolution_fields)
  then have "timers ?c \<in> shuffles (timers ?a) (timers ?b)"
    by (simp only: append_in_shuffles)
  then have "independent ?c ?a ?b"
    unfolding independent_def by (simp add: handleShowSolution_fields)
  then have run: "independent (run_until (now st + t) ?c) (run_until (now st + t) ?a)
      (run_until (now st + t) ?b)"
    by (rule independent_run)
  have eb: "edges (run_until (now st + t) ?b) = take (Suc (t div 100)) (solutionEdges (build uuid))"
    using reveal_from_idle(1) [OF idle, of t uuid] by (simp only: nw)
  have fb: "effects (run_until (now st + t) ?b) = (if 1100 \<le> t then [FitViewCalled] else [])"
    using reveal_from_idle(2) [OF idle, of t uuid] by (simp only: nw fx append_Nil)
  from run show "edges (run_until (now st + t) ?c)
     \<in> shuffles (take (Suc (t div 100)) (solutionEdges (build uuid)))
         (edges (run_until (now st + t) ?a))"
    unfolding independent_def by (simp only: eb shuffles_commutes [of "edges (run_until (now st + t) ?a)"])
  from run show "effects (run_until (now st + t) ?c)
     \<in> shuffles (if 1100 \<le> t then [FitViewCalled] else [])
         (effects (run_until (now st + t) ?a))"
    unfolding independent_def by (simp only: fb shuffles_commutes [of "effects (run_until (now st + t) ?a)"])
qed

lemma earlier_reveal_alone:
  assumes idle: "timers st = []" and mid: "t < 1000" and later: "t \<le> t'"
  shows "edges (run_until (now st + t') ((run_until (now st + t) (handleShowSolution uuid st))\<lparr>edges := []\<rparr>)) =
         take (Suc (t' div 100) - Suc (t div 100)) (drop (Suc (t div 100)) (solutionEdges (build uuid)))"
    and "effects (run_until (now st + t') ((run_until (now st + t) (handleShowSolution uuid st))\<lparr>edges := []\<rparr>)) =
         effects st @ (if 1100 \<le> t' then [FitViewCalled] else [])"
proof -
  let ?sol = "solutionEdges (build uuid)"
  let ?j = "Suc (t div 100)"
  let ?X = "(run_until (now st + t) (handleShowSolution uuid st))\<lparr>edges := []\<rparr>"
  have tm: "timers ?X = map (\<lambda>(i, e). (now st + i * 100, AppendEdge e (i = 11 - 1)))
      (enumerate ?j (drop ?j ?sol))"
    using reveal_from_idle(3) [OF idle mid] by simp
  from mid have j: "?j \<le> 10" by arith
  then have len: "?j + length (drop ?j ?sol) = 11" by (simp add: length_solutionEdges)
  from j have ne: "drop ?j ?sol \<noteq> []" by (simp add: length_solutionEdges)
  have nw: "now ?X \<le> now st + ?j * 100"
    by (simp add: run_until_now handleShowSolution_fields)
  have fx: "effects ?X = effects st"
    using reveal_from_idle(2) [OF idle, of t uuid] mid by simp
  note run = reveal_run [OF tm len nw, of t']
  from run show "edges (run_until (now st + t') ?X) =
      take (Suc (t' div 100) - ?j) (drop ?j ?sol)"
    by simp
  from run ne fx show "effects (run_until (now st + t') ?X) =
      effects st @ (if 1100 \<le> t' then [FitViewCalled] else [])"
    by simp
qed

subsection \<open>Rounding\<close>

lemma nearest_tenth:
  fixes k y :: rat
  shows "k \<le> y * 10 + 1 / 2 \<Longrightarrow> y * 10 + 1 / 2 < k + 1 \<Longrightarrow> \<bar>k / 10 - y\<bar> \<le> 1 / 20"
  by linarith

lemma tenths_nearest:
  assumes "0 \<le> x"
  shows "\<bar>of_nat (tenths x) / 10 - x\<bar> \<le> 1 / 20"
proof -
  let ?k = "\<lfloor>x * 10 + 1 / 2\<rfloor>"
  have nonneg: "0 \<le> ?k" using assms by simp
  then have t: "(of_nat (tenths x) :: rat) = of_int ?k" by (simp add: tenths_def)
  have lo: "of_int ?k \<le> x * 10 + 1 / 2" by (rule of_int_floor_le)
  have hi: "x * 10 + 1 / 2 < of_int ?k + 1" using floor_correct [of "x * 10 + 1 / 2"] by simp
  from lo hi show ?thesis unfolding t by (rule nearest_tenth)
qed

lemma feedback_of_tenths:
  "feedback_of x =
     (if 900 \<le> tenths x then msg_excellent
      else if 700 \<le> tenths x then msg_good
      else if 500 \<le> tenths x then msg_fair
      else msg_needs_work)"
proof -
  have "\<And>k. (k \<le> (of_nat (tenths x) :: rat) / 10) = (k * 10 \<le> of_nat (tenths x))"
    by (simp add: field_simps)
  then have "\<And>k::nat. ((of_nat k :: rat) \<le> of_nat (tenths x) / 10) = (k * 10 \<le> tenths x)"
    by (metis of_nat_le_iff of_nat_mult of_nat_numeral)
  from this [of 90] this [of 70] this [of 50] show ?thesis
    by (simp add: feedback_of_def parseFloat_toFixed1_def)
qed

lemma table_at:
  "map f [0, 1, 2, 3, 4, 5, 6, 7, 8, 9, 10, 11 :: nat] = ys \<Longrightarrow> f 7 = ys ! 7 \<and> f 8 = ys ! 8"
  by auto

lemma count_partial_reveal:
  "count_correct (createdNodes (build uuid_seq)) (take 8 (solutionEdges (build uuid_seq))) = 8"
  "count_correct (createdNodes (build uuid_seq)) (take 7 (solutionEdges (build uuid_seq))) = 7"
  by (simp_all add: count_correct_def expectedFlow_def build_nodes build_edges check_pair_alt
      uuid_seq_def show_nat_digits)

subsection \<open>Connecting\<close>

lemma onConnect_nodes: "nodes (onConnect c st) = nodes st"
  by (simp add: onConnect_def)

lemma onConnect_edges: "edges (onConnect c st) = addEdge c (edges st)"
  by (simp add: onConnect_def)

lemma addEdge_fresh:
  assumes "conn_source c = Some s" "s \<noteq> []" "conn_target c = Some t" "t \<noteq> []"
    and "\<not> (\<exists>e\<in>set es. source e = s \<and> target e = t)"
  shows "addEdge c es =
    es @ [\<lparr>edge_id = getEdgeId c, source = s, target = t,
           sourceHandle = conn_sourceHandle c, targetHandle = conn_targetHandle c\<rparr>]"
  using assms by (auto simp: addEdge_def falsy_def or_empty_def connectionExists_def list_ex_iff Let_def)

lemma addEdge_keeps: "set es \<subseteq> set (addEdge c es)"
  by (auto simp: addEdge_def Let_def)

subsection \<open>The first node of a kind\<close>

lemma find_first:
  "ns = pre @ a # post \<Longrightarrow> P a \<Longrightarrow> \<forall>n\<in>set pre. \<not> P n \<Longrightarrow> find P ns = Some a"
  by (induction pre arbitrary: ns) auto

lemma find_only:
  assumes "distinct (map label ns)" "a \<in> set ns" "label a = s"
  shows "find (\<lambda>n. label n = s) ns = Some a"
proof (cases "find (\<lambda>n. label n = s) ns")
  case None
  with assms(2,3) show ?thesis by (auto simp: find_None_iff)
next
  case (Some a')
  from find_Some_mem [OF Some] have "a' \<in> set ns" "label a' = s" by simp_all
  moreover from assms(1) have "inj_on label (set ns)" by (simp add: distinct_map)
  ultimately have "a' = a" using assms(2,3) by (auto dest: inj_onD)
  with Some show ?thesis by simp
qed

lemma check_pair_one:
  "check_pair ns es (s, t) 0 = 1 \<longleftrightarrow>
     (\<exists>a b. find (\<lambda>n. label n = s) ns = Some a \<and> find (\<lambda>n. label n = t) ns = Some b
        \<and> (\<exists>e\<in>set es. source e = node_id a \<and> target e = node_id b))"
  by (auto simp: check_pair_alt split: option.splits)

lemma count_full_iff:
  "count_correct ns es = length expectedFlow \<longleftrightarrow>
     (\<forall>(s, t)\<in>set expectedFlow.
        \<exists>a b. find (\<lambda>n. label n = s) ns = Some a \<and> find (\<lambda>n. label n = t) ns = Some b
          \<and> (\<exists>e\<in>set es. source e = node_id a \<and> target e = node_id b))"
proof -
  have "count_correct ns es = length expectedFlow \<longleftrightarrow>
      (\<forall>p\<in>set expectedFlow. check_pair ns es p 0 = 1)"
    unfolding count_correct_sum by (rule sum_eq_length) (rule check_pair_le1)
  also have "\<dots> \<longleftrightarrow> (\<forall>(s, t)\<in>set expectedFlow.
        \<exists>a b. find (\<lambda>n. label n = s) ns = Some a \<and> find (\<lambda>n. label n = t) ns = Some b
          \<and> (\<exists>e\<in>set es. source e = node_id a \<and> target e = node_id b))"
  proof -
    have "\<And>p. (check_pair ns es p 0 = 1) =
        (case p of (s, t) \<Rightarrow>
           \<exists>a b. find (\<lambda>n. label n = s) ns = Some a \<and> find (\<lambda>n. label n = t) ns = Some b
             \<and> (\<exists>e\<in>set es. source e = node_id a \<and> target e = node_id b))"
    proof -
      fix p :: "string \<times> string"
      obtain s t where p: "p = (s, t)" by (cases p)
      show "(check_pair ns es p 0 = 1) =
        (case p of (s, t) \<Rightarrow>
           \<exists>a b. find (\<lambda>n. label n = s) ns = Some a \<and> find (\<lambda>n. label n = t) ns = Some b
             \<and> (\<exists>e\<in>set es. source e = node_id a \<and> target e = node_id b))"
        unfolding p by (simp only: check_pair_one prod.case)
    qed
    then show ?thesis by (simp only:)
  qed
  finally show ?thesis .
qed

lemma every_pair_connected_iff:
  "every_pair_connected ns es \<longleftrightarrow>
     (\<forall>(s, t)\<in>set expectedFlow.
        \<exists>a\<in>set ns. \<exists>b\<in>set ns. label a = s \<and> label b = t
          \<and> (\<exists>e\<in>set es. source e = node_id a \<and> target e = node_id b))"
  by (auto simp: every_pair_connected_def list_all_iff list_ex_iff split_def)

lemma full_imp_connected:
  assumes "count_correct ns es = length expectedFlow"
  shows "every_pair_connected ns es"
  unfolding every_pair_connected_iff
proof (clarify)
  fix s t assume st: "(s, t) \<in> set expectedFlow"
  have "case (s, t) of (s, t) \<Rightarrow>
      \<exists>a b. find (\<lambda>n. label n = s) ns = Some a \<and> find (\<lambda>n. label n = t) ns = Some b
        \<and> (\<exists>e\<in>set es. source e = node_id a \<and> target e = node_id b)"
    using assms [unfolded count_full_iff] st by (rule bspec)
  then obtain a b where
    ab: "find (\<lambda>n. label n = s) ns = Some a" "find (\<lambda>n. label n = t) ns = Some b"
      "\<exists>e\<in>set es. source e = node_id a \<and> target e = node_id b"
    by auto
  from find_Some_mem [OF ab(1)] have a: "a \<in> set ns" "label a = s" by simp_all
  from find_Some_mem [OF ab(2)] have b: "b \<in> set ns" "label b = t" by simp_all
  from a(2) b(2) ab(3)
  have "label a = s \<and> label b = t \<and> (\<exists>e\<in>set es. source e = node_id a \<and> target e = node_id b)"
    by simp
  with b(1) have "\<exists>b\<in>set ns. label a = s \<and> label b = t
      \<and> (\<exists>e\<in>set es. source e = node_id a \<and> target e = node_id b)"
    by (rule rev_bexI)
  with a(1) show "\<exists>a\<in>set ns. \<exists>b\<in>set ns. label a = s \<and> label b = t
          \<and> (\<exists>e\<in>set es. source e = node_id a \<and> target e = node_id b)"
    by (rule rev_bexI)
qed

lemma connected_imp_full:
  assumes "distinct (map label ns)" "every_pair_connected ns es"
  shows "count_correct ns es = length expectedFlow"
  unfolding count_full_iff
proof (clarify)
  fix s t assume st: "(s, t) \<in> set expectedFlow"
  have "case (s, t) of (s, t) \<Rightarrow>
      \<exists>a\<in>set ns. \<exists>b\<in>set ns. label a = s \<and> label b = t
        \<and> (\<exists>e\<in>set es. source e = node_id a \<and> target e = node_id b)"
    using assms(2) [unfolded every_pair_connected_iff] st by (rule bspec)
  then obtain a b where
    ab: "a \<in> set ns" "b \<in> set ns" "label a = s" "label b = t"
      "\<exists>e\<in>set es. source e = node_id a \<and> target e = node_id b"
    by auto
  from find_only [OF assms(1) ab(1,3)] find_only [OF assms(1) ab(2,4)] ab(5)
  have "find (\<lambda>n. label n = s) ns = Some a \<and> find (\<lambda>n. label n = t) ns = Some b
          \<and> (\<exists>e\<in>set es. source e = node_id a \<and> target e = node_id b)"
    by simp
  then show "\<exists>a b. find (\<lambda>n. label n = s) ns = Some a \<and> find (\<lambda>n. label n = t) ns = Some b
          \<and> (\<exists>e\<in>set es. source e = node_id a \<and> target e = node_id b)"
    by (intro exI)
qed

lemma two_users_eval:
  "every_pair_connected (nodes two_users) (edges two_users)"
  "count_correct (nodes two_users) (edges two_users) = 9"
  by code_simp+

lemma backwards_eval:
  "nodes backwards =
     [\<lparr>node_id = ''u'', label = ''User'', position = Some (450, 100)\<rparr>,
      \<lparr>node_id = ''k'', label = ''Knowledge Base'', position = Some (450, 180)\<rparr>]"
  "edges backwards =
     [\<lparr>edge_id = ''reactflow__edge-k-u'', source = ''k'', target = ''u'',
       sourceHandle = None, targetHandle = None\<rparr>]"
  by code_simp+

section \<open>The claims\<close>

text \<open>
  C1. For every state, a submission stores the count of matched pairs, the total 11, the
  accuracy as the text of the percentage rounded to the nearest tenth, and the feedback
  chosen on the rounded percentage with the bounds 90, 70 and 50; it plays the success
  sound with the confetti when the ratio is at least 0.7 and the error sound otherwise.
  With 8 matched pairs that is \<^verbatim>\<open>72.7\<close>, the second tier and the celebration; with 7 it
  is \<^verbatim>\<open>63.6\<close>, the third tier and no celebration.
\<close>

theorem submit_score_and_tier:
  "game_result (handleSubmit st) =
     Some \<lparr>correct = count_correct (nodes st) (edges st), total = 11,
           accuracy = toFixed1 (of_nat (count_correct (nodes st) (edges st)) / 11 * 100),
           feedback =
             (if 900 \<le> tenths (of_nat (count_correct (nodes st) (edges st)) / 11 * 100)
              then msg_excellent
              else if 700 \<le> tenths (of_nat (count_correct (nodes st) (edges st)) / 11 * 100)
              then msg_good
              else if 500 \<le> tenths (of_nat (count_correct (nodes st) (edges st)) / 11 * 100)
              then msg_fair
              else msg_needs_work)\<rparr>
   \<and> \<bar>of_nat (tenths (of_nat (count_correct (nodes st) (edges st)) / 11 * 100)) / 10
        - (of_nat (count_correct (nodes st) (edges st)) :: rat) / 11 * 100\<bar> \<le> 1 / 20
   \<and> effects (handleSubmit st) =
       effects st @ (if 7 / 10 \<le> (of_nat (count_correct (nodes st) (edges st)) :: rat) / 11
                     then [PlaySuccess, Confetti] else [PlayError])
   \<and> (count_correct (nodes st) (edges st) = 8 \<longrightarrow>
        game_result (handleSubmit st) =
          Some \<lparr>correct = 8, total = 11, accuracy = ''72.7'', feedback = msg_good\<rparr>
        \<and> effects (handleSubmit st) = effects st @ [PlaySuccess, Confetti])
   \<and> (count_correct (nodes st) (edges st) = 7 \<longrightarrow>
        game_result (handleSubmit st) =
          Some \<lparr>correct = 7, total = 11, accuracy = ''63.6'', feedback = msg_fair\<rparr>
        \<and> effects (handleSubmit st) = effects st @ [PlayError])"
proof -
  let ?n = "count_correct (nodes st) (edges st)"
  have a: "game_result (handleSubmit st) =
     Some \<lparr>correct = ?n, total = 11, accuracy = toFixed1 (of_nat ?n / 11 * 100),
           feedback =
             (if 900 \<le> tenths (of_nat ?n / 11 * 100) then msg_excellent
              else if 700 \<le> tenths (of_nat ?n / 11 * 100) then msg_good
              else if 500 \<le> tenths (of_nat ?n / 11 * 100) then msg_fair
              else msg_needs_work)\<rparr>"
    by (simp only: handleSubmit_result feedback_of_tenths)
  have b: "\<bar>of_nat (tenths (of_nat ?n / 11 * 100)) / 10 - (of_nat ?n :: rat) / 11 * 100\<bar> \<le> 1 / 20"
    by (rule tenths_nearest) simp
  have c: "effects (handleSubmit st) =
       effects st @ (if 7 / 10 \<le> (of_nat ?n :: rat) / 11 then [PlaySuccess, Confetti] else [PlayError])"
    by (simp add: handleSubmit_def Let_def length_expectedFlow)
  have d: "?n = 8 \<longrightarrow>
        game_result (handleSubmit st) =
          Some \<lparr>correct = 8, total = 11, accuracy = ''72.7'', feedback = msg_good\<rparr>
        \<and> effects (handleSubmit st) = effects st @ [PlaySuccess, Confetti]"
    using table_at [OF accuracy_table] table_at [OF feedback_table]
    by (simp add: handleSubmit_result handleSubmit_effects)
  have e: "?n = 7 \<longrightarrow>
        game_result (handleSubmit st) =
          Some \<lparr>correct = 7, total = 11, accuracy = ''63.6'', feedback = msg_fair\<rparr>
        \<and> effects (handleSubmit st) = effects st @ [PlayError]"
    using table_at [OF accuracy_table] table_at [OF feedback_table]
    by (simp add: handleSubmit_result handleSubmit_effects)
  from a b c d e show ?thesis by blast
qed

text \<open>Two states with exactly 8 and exactly 7 matched pairs: a reveal from the initial
  state, 700 ms and 600 ms after the call.\<close>

theorem submit_score_and_tier_witness:
  "count_correct (nodes (run_until 700 (handleShowSolution uuid_seq initial)))
     (edges (run_until 700 (handleShowSolution uuid_seq initial))) = 8
   \<and> game_result (handleSubmit (run_until 700 (handleShowSolution uuid_seq initial))) =
       Some \<lparr>correct = 8, total = 11, accuracy = ''72.7'', feedback = msg_good\<rparr>
   \<and> effects (handleSubmit (run_until 700 (handleShowSolution uuid_seq initial))) =
       [PlaySuccess, Confetti]
   \<and> count_correct (nodes (run_until 600 (handleShowSolution uuid_seq initial)))
       (edges (run_until 600 (handleShowSolution uuid_seq initial))) = 7
   \<and> game_result (handleSubmit (run_until 600 (handleShowSolution uuid_seq initial))) =
       Some \<lparr>correct = 7, total = 11, accuracy = ''63.6'', feedback = msg_fair\<rparr>
   \<and> effects (handleSubmit (run_until 600 (handleShowSolution uuid_seq initial))) =
       [PlayError]"
proof -
  have idle: "timers initial = []" and start: "now initial = 0" and fx: "effects initial = []"
    by (simp_all add: initial_def)
  let ?s8 = "run_until 700 (handleShowSolution uuid_seq initial)"
  let ?s7 = "run_until 600 (handleShowSolution uuid_seq initial)"
  have n8: "nodes ?s8 = createdNodes (build uuid_seq)" and n7: "nodes ?s7 = createdNodes (build uuid_seq)"
    by (simp_all add: run_until_nodes handleShowSolution_fields)
  have e8: "edges ?s8 = take 8 (solutionEdges (build uuid_seq))"
    using reveal_from_idle(1) [OF idle, of 700 uuid_seq] by (simp add: start)
  have e7: "edges ?s7 = take 7 (solutionEdges (build uuid_seq))"
    using reveal_from_idle(1) [OF idle, of 600 uuid_seq] by (simp add: start)
  have f8: "effects ?s8 = []" and f7: "effects ?s7 = []"
    using reveal_from_idle(2) [OF idle, of 700 uuid_seq] reveal_from_idle(2) [OF idle, of 600 uuid_seq]
    by (simp_all add: start fx)
  have c8: "count_correct (nodes ?s8) (edges ?s8) = 8"
    unfolding n8 e8 by (rule count_partial_reveal)
  have c7: "count_correct (nodes ?s7) (edges ?s7) = 7"
    unfolding n7 e7 by (rule count_partial_reveal)
  from submit_score_and_tier [of ?s8] c8
  have r8: "game_result (handleSubmit ?s8) =
      Some \<lparr>correct = 8, total = 11, accuracy = ''72.7'', feedback = msg_good\<rparr>
    \<and> effects (handleSubmit ?s8) = effects ?s8 @ [PlaySuccess, Confetti]"
    by blast
  from submit_score_and_tier [of ?s7] c7
  have r7: "game_result (handleSubmit ?s7) =
      Some \<lparr>correct = 7, total = 11, accuracy = ''63.6'', feedback = msg_fair\<rparr>
    \<and> effects (handleSubmit ?s7) = effects ?s7 @ [PlayError]"
    by blast
  from c8 c7 r8 r7 f8 f7 show ?thesis by simp
qed

text \<open>
  C2 as stated fails when two nodes share a kind: in \<open>two_users\<close> every reference pair
  is drawn between some nodes of the right kinds, and the count is 9, not 11, because the
  first node labelled User has no edge.
\<close>

theorem count_full_counterexample:
  "every_pair_connected (nodes two_users) (edges two_users)
   \<and> count_correct (nodes two_users) (edges two_users) = 9
   \<and> length expectedFlow = 11"
  using two_users_eval length_expectedFlow by simp

text \<open>
  C2, amended. The count is at most 11. It is 11 exactly when, for every reference pair,
  the first node of the source kind and the first node of the target kind (in the order
  of the node list) exist and an edge goes from the former to the latter. That implies
  the condition of the claim, and is the same as that condition when no two nodes share a
  label.
\<close>

theorem count_full:
  "count_correct ns es \<le> length expectedFlow
   \<and> length expectedFlow = 11
   \<and> (count_correct ns es = length expectedFlow \<longleftrightarrow>
        (\<forall>(s, t)\<in>set expectedFlow.
           \<exists>a b. find (\<lambda>n. label n = s) ns = Some a \<and> find (\<lambda>n. label n = t) ns = Some b
             \<and> (\<exists>e\<in>set es. source e = node_id a \<and> target e = node_id b)))
   \<and> (count_correct ns es = length expectedFlow \<longrightarrow> every_pair_connected ns es)
   \<and> (distinct (map label ns) \<longrightarrow>
        (count_correct ns es = length expectedFlow \<longleftrightarrow> every_pair_connected ns es))"
proof (intro conjI impI)
  show "count_correct ns es \<le> length expectedFlow" by (rule count_correct_le)
  show "length expectedFlow = 11" by (rule length_expectedFlow)
  show "count_correct ns es = length expectedFlow \<longleftrightarrow>
        (\<forall>(s, t)\<in>set expectedFlow.
           \<exists>a b. find (\<lambda>n. label n = s) ns = Some a \<and> find (\<lambda>n. label n = t) ns = Some b
             \<and> (\<exists>e\<in>set es. source e = node_id a \<and> target e = node_id b))"
    by (rule count_full_iff)
  show "every_pair_connected ns es" if "count_correct ns es = length expectedFlow"
    using that by (rule full_imp_connected)
  show "count_correct ns es = length expectedFlow \<longleftrightarrow> every_pair_connected ns es"
    if d: "distinct (map label ns)"
  proof
    show "every_pair_connected ns es" if "count_correct ns es = length expectedFlow"
      using that by (rule full_imp_connected)
    show "count_correct ns es = length expectedFlow" if "every_pair_connected ns es"
      using d that by (rule connected_imp_full)
  qed
qed

text \<open>The completed reveal: distinct labels, every pair connected, the count 11.\<close>

theorem count_full_witness:
  "distinct (map label (createdNodes (build uuid_seq)))
   \<and> count_correct (createdNodes (build uuid_seq)) (solutionEdges (build uuid_seq)) = 11
   \<and> every_pair_connected (createdNodes (build uuid_seq)) (solutionEdges (build uuid_seq))"
proof -
  have d: "distinct (map label (createdNodes (build uuid_seq)))"
    by (simp add: build_nodes)
  have c: "count_correct (createdNodes (build uuid_seq)) (solutionEdges (build uuid_seq)) = 11"
    by (rule count_solution)
  from count_full [of "createdNodes (build uuid_seq)" "solutionEdges (build uuid_seq)"] d c
  have "every_pair_connected (createdNodes (build uuid_seq)) (solutionEdges (build uuid_seq))"
    by presburger
  with d c show ?thesis by blast
qed

text \<open>
  C3. Once a reveal has run to completion, a submission reports 11 of 11 matched, the
  accuracy \<^verbatim>\<open>100.0\<close> and the feedback of the top tier. \<open>limit\<close> is any time at
  which the last edge has been inserted (1000 ms after the call or later; the reveal is
  complete 100 ms after that). This holds from every state, whatever timers were pending
  before the call and whatever ids \<^verbatim>\<open>uuidv4\<close> returns.
\<close>

theorem reveal_then_submit:
  "now st + 1000 \<le> limit \<Longrightarrow>
   game_result (handleSubmit (run_until limit (handleShowSolution uuid st))) =
     Some \<lparr>correct = 11, total = 11, accuracy = ''100.0'', feedback = msg_excellent\<rparr>"
  using accuracy_table feedback_table
  by (simp add: handleSubmit_result reveal_then_submit_aux)

text \<open>The instance from the initial state, evaluated 1100 ms after the call.\<close>

theorem reveal_then_submit_witness:
  "game_result (handleSubmit (run_until 1100 (handleShowSolution uuid_seq initial))) =
     Some \<lparr>correct = 11, total = 11, accuracy = ''100.0'', feedback = msg_excellent\<rparr>"
  using reveal_then_submit [of initial 1100 uuid_seq] by (simp add: initial_def)

text \<open>
  C4. A call of \<^verbatim>\<open>handleShowSolution\<close>, in any state, registers after the timers already
  pending exactly one timer for each of the 11 edges of \<^verbatim>\<open>solutionEdges\<close>, in the order of
  the list and due \<open>i * 100\<close> ms after the call; the edges are one for each pair of
  \<^verbatim>\<open>expectedFlow\<close>, in its order, from the node made for the source label to the node made
  for the target label. At every time \<open>t\<close> ms after the call, the edges present are the
  first \<open>t div 100 + 1\<close> of them (all 11 from 1000 ms on), in their order, interleaved with
  the edges that the timers pending before the call insert on their own; and the calls of
  \<^verbatim>\<open>fitView\<close> are those of the earlier timers, interleaved with exactly one call of this
  reveal from 1100 ms on and none before. When no timer was pending, that is: the edges
  are the first \<open>t div 100 + 1\<close> solution edges, and \<^verbatim>\<open>fitView\<close> is called once, at
  1100 ms.
\<close>

theorem reveal_sequence:
  "timers (handleShowSolution uuid st) =
     timers st @ map (\<lambda>(i, e). (now st + i * 100, AppendEdge e (i = 10)))
                   (enumerate 0 (solutionEdges (build uuid)))
   \<and> length (solutionEdges (build uuid)) = 11
   \<and> list_all2 (\<lambda>e (s, t).
         map_option node_id (find (\<lambda>n. label n = s) (nodes (handleShowSolution uuid st))) = Some (source e)
       \<and> map_option node_id (find (\<lambda>n. label n = t) (nodes (handleShowSolution uuid st))) = Some (target e))
       (solutionEdges (build uuid)) expectedFlow
   \<and> (\<forall>t. edges (run_until (now st + t) (handleShowSolution uuid st))
             \<in> shuffles (take (Suc (t div 100)) (solutionEdges (build uuid)))
                 (edges (run_until (now st + t) (st\<lparr>edges := []\<rparr>)))
          \<and> effects (run_until (now st + t) (handleShowSolution uuid st))
             \<in> shuffles (if 1100 \<le> t then [FitViewCalled] else [])
                 (effects (run_until (now st + t) (st\<lparr>edges := []\<rparr>))))
   \<and> (timers st = [] \<longrightarrow>
        (\<forall>t. edges (run_until (now st + t) (handleShowSolution uuid st)) =
               take (Suc (t div 100)) (solutionEdges (build uuid))
           \<and> effects (run_until (now st + t) (handleShowSolution uuid st)) =
               effects st @ (if 1100 \<le> t then [FitViewCalled] else [])))"
  using solution_edges_follow_flow [of uuid] reveal_interleaved [of st _ uuid]
  by (simp add: handleShowSolution_fields length_solutionEdges reveal_from_idle)

text \<open>
  Two instances. A reveal from the initial state: 250 ms after the call three edges are
  there, 1000 ms after it all eleven and no call of \<^verbatim>\<open>fitView\<close> yet, 1100 ms after it
  one call. And a second reveal started 250 ms into that one, with eight timers of the
  first still pending: 1000 ms after the second call the edges are its eleven edges in
  order, interleaved with the eight late edges of the first reveal, 19 in all; 1100 ms
  after it \<^verbatim>\<open>fitView\<close> has been called twice, once for each reveal.
\<close>

theorem reveal_sequence_witness:
  "edges (run_until 250 (handleShowSolution uuid_seq initial)) =
     take 3 (solutionEdges (build uuid_seq))
   \<and> edges (run_until 1000 (handleShowSolution uuid_seq initial)) = solutionEdges (build uuid_seq)
   \<and> effects (run_until 1000 (handleShowSolution uuid_seq initial)) = []
   \<and> effects (run_until 1100 (handleShowSolution uuid_seq initial)) = [FitViewCalled]
   \<and> timers (run_until 250 (handleShowSolution uuid_seq initial)) \<noteq> []
   \<and> edges (run_until 1250 (handleShowSolution uuid_again
        (run_until 250 (handleShowSolution uuid_seq initial))))
       \<in> shuffles (solutionEdges (build uuid_again)) (drop 3 (solutionEdges (build uuid_seq)))
   \<and> length (edges (run_until 1250 (handleShowSolution uuid_again
        (run_until 250 (handleShowSolution uuid_seq initial))))) = 19
   \<and> effects (run_until 1350 (handleShowSolution uuid_again
        (run_until 250 (handleShowSolution uuid_seq initial)))) = [FitViewCalled, FitViewCalled]"
proof -
  have idle: "timers initial = []" and start: "now initial = 0" and fx: "effects initial = []"
    by (simp_all add: initial_def)
  let ?st1 = "run_until 250 (handleShowSolution uuid_seq initial)"
  note first = reveal_sequence [of uuid_seq initial]
  from first idle
  have run: "\<forall>t. edges (run_until (now initial + t) (handleShowSolution uuid_seq initial)) =
               take (Suc (t div 100)) (solutionEdges (build uuid_seq))
           \<and> effects (run_until (now initial + t) (handleShowSolution uuid_seq initial)) =
               effects initial @ (if 1100 \<le> t then [FitViewCalled] else [])"
    by blast
  from spec [OF run, of 250] spec [OF run, of 1000] spec [OF run, of 1100]
  have a: "edges ?st1 = take 3 (solutionEdges (build uuid_seq))
     \<and> edges (run_until 1000 (handleShowSolution uuid_seq initial)) = solutionEdges (build uuid_seq)
     \<and> effects (run_until 1000 (handleShowSolution uuid_seq initial)) = []
     \<and> effects (run_until 1100 (handleShowSolution uuid_seq initial)) = [FitViewCalled]"
    by (simp add: start fx length_solutionEdges)
  have "length (timers ?st1) = 8"
    using reveal_from_idle(3) [OF idle, of 250 uuid_seq] by (simp add: start length_solutionEdges)
  then have pending: "timers ?st1 \<noteq> []" by auto
  have nw: "now ?st1 = 250"
    by (simp add: run_until_now handleShowSolution_fields start)
  have old_e: "edges (run_until 1250 (?st1\<lparr>edges := []\<rparr>)) = drop 3 (solutionEdges (build uuid_seq))"
    using earlier_reveal_alone(1) [OF idle, of 250 1250 uuid_seq]
    by (simp add: start length_solutionEdges)
  have old_f: "effects (run_until 1350 (?st1\<lparr>edges := []\<rparr>)) = [FitViewCalled]"
    using earlier_reveal_alone(2) [OF idle, of 250 1350 uuid_seq]
    by (simp add: start fx)
  from reveal_sequence [of uuid_again ?st1]
  have second: "\<forall>t. edges (run_until (now ?st1 + t) (handleShowSolution uuid_again ?st1))
             \<in> shuffles (take (Suc (t div 100)) (solutionEdges (build uuid_again)))
                 (edges (run_until (now ?st1 + t) (?st1\<lparr>edges := []\<rparr>)))
          \<and> effects (run_until (now ?st1 + t) (handleShowSolution uuid_again ?st1))
             \<in> shuffles (if 1100 \<le> t then [FitViewCalled] else [])
                 (effects (run_until (now ?st1 + t) (?st1\<lparr>edges := []\<rparr>)))"
    by blast
  from spec [OF second, of 1000]
  have b: "edges (run_until 1250 (handleShowSolution uuid_again ?st1))
       \<in> shuffles (solutionEdges (build uuid_again)) (drop 3 (solutionEdges (build uuid_seq)))"
    by (simp add: nw old_e length_solutionEdges)
  from length_shuffles [OF b]
  have c: "length (edges (run_until 1250 (handleShowSolution uuid_again ?st1))) = 19"
    by (simp add: length_solutionEdges)
  from spec [OF second, of 1100]
  have d: "effects (run_until 1350 (handleShowSolution uuid_again ?st1)) = [FitViewCalled, FitViewCalled]"
    by (simp add: nw old_f)
  from a pending b c d show ?thesis by blast
qed




text \<open>
  C6 as stated fails: \<^verbatim>\<open>onConnect\<close> has no failure and never looks at the nodes. With
  no node at all, a connection between two ids is added as an edge.
\<close>

theorem connect_absent_counterexample:
  "nodes initial = []
   \<and> edges (onConnect \<lparr>conn_source = Some ''ghost-a'', conn_target = Some ''ghost-b'',
         conn_sourceHandle = None, conn_targetHandle = None\<rparr> initial) =
       [\<lparr>edge_id = ''reactflow__edge-ghost-a-ghost-b'', source = ''ghost-a'', target = ''ghost-b'',
         sourceHandle = None, targetHandle = None\<rparr>]"
  by (simp add: initial_def onConnect_def addEdge_def falsy_def or_empty_def getEdgeId_def
      connectionExists_def Let_def)

text \<open>
  C6, amended. \<^verbatim>\<open>onConnect\<close> has no failure result and never consults the nodes: it
  leaves the nodes as they are, its edges are the same whatever the nodes are, and it
  removes no edge. A connection with a non-empty source and target that no edge joins yet
  in that direction is appended as an edge, whether or not the two ids are ids of nodes.
\<close>

theorem connect_ignores_nodes:
  "nodes (onConnect c st) = nodes st
   \<and> edges (onConnect c (st\<lparr>nodes := ns\<rparr>)) = edges (onConnect c st)
   \<and> set (edges st) \<subseteq> set (edges (onConnect c st))
   \<and> (conn_source c = Some s \<and> s \<noteq> [] \<and> conn_target c = Some t \<and> t \<noteq> []
        \<and> \<not> (\<exists>e\<in>set (edges st). source e = s \<and> target e = t) \<longrightarrow>
        edges (onConnect c st) =
          edges st @ [\<lparr>edge_id = getEdgeId c, source = s, target = t,
                       sourceHandle = conn_sourceHandle c, targetHandle = conn_targetHandle c\<rparr>])"
  using addEdge_fresh [of c s t "edges st"] addEdge_keeps [of "edges st" c]
  by (auto simp: onConnect_edges onConnect_nodes)

text \<open>Two nodes, and a connection from the first to an id that is no node's.\<close>

theorem connect_ignores_nodes_witness:
  "edges (onConnect \<lparr>conn_source = Some ''u1'', conn_target = Some ''nobody'',
         conn_sourceHandle = None, conn_targetHandle = None\<rparr>
       (addNode ''k1'' 450 ''Knowledge Base'' (addNode ''u1'' 350 ''User'' initial))) =
     [\<lparr>edge_id = ''reactflow__edge-u1-nobody'', source = ''u1'', target = ''nobody'',
       sourceHandle = None, targetHandle = None\<rparr>]
   \<and> map node_id (nodes (onConnect \<lparr>conn_source = Some ''u1'', conn_target = Some ''nobody'',
         conn_sourceHandle = None, conn_targetHandle = None\<rparr>
       (addNode ''k1'' 450 ''Knowledge Base'' (addNode ''u1'' 350 ''User'' initial)))) =
     [''u1'', ''k1'']"
  using connect_ignores_nodes [of "\<lparr>conn_source = Some ''u1'', conn_target = Some ''nobody'',
         conn_sourceHandle = None, conn_targetHandle = None\<rparr>"
       "addNode ''k1'' 450 ''Knowledge Base'' (addNode ''u1'' 350 ''User'' initial)"
       _ "''u1''" "''nobody''"]
  by (simp add: initial_def addNode_def getEdgeId_def or_empty_def Let_def)

text \<open>
  C7. \<open>check_pair\<close> is the step of the loop over the reference pairs: it takes the
  running count \<open>k\<close> to the count after one pair. For a pair whose source kind resolves
  to node \<open>a\<close> and whose target kind resolves to node \<open>b\<close>, the pair counts exactly when
  some edge has the id of \<open>a\<close> as its source and the id of \<open>b\<close> as its target. An edge
  drawn backwards, from \<open>b\<close> to \<open>a\<close>, adds nothing to the count of that pair, and alone it
  leaves the count as it was.
\<close>

theorem reverse_edge_not_counted:
  "find (\<lambda>n. label n = s) ns = Some a \<Longrightarrow> find (\<lambda>n. label n = t) ns = Some b \<Longrightarrow>
   check_pair ns es (s, t) k =
     (if \<exists>e\<in>set es. source e = node_id a \<and> target e = node_id b then k + 1 else k)
   \<and> (node_id a \<noteq> node_id b \<and> source r = node_id b \<and> target r = node_id a \<longrightarrow>
        check_pair ns (es @ [r]) (s, t) k = check_pair ns es (s, t) k
        \<and> check_pair ns [r] (s, t) k = k)"
  by (auto simp: check_pair_alt)

text \<open>User and Knowledge Base with the edge drawn from Knowledge Base to User: the pair
  (User, Knowledge Base) is not counted.\<close>

theorem reverse_edge_not_counted_witness:
  "check_pair (nodes backwards) (edges backwards) (''User'', ''Knowledge Base'') 0 = 0"
  using reverse_edge_not_counted [of "''User''" "nodes backwards"
      "\<lparr>node_id = ''u'', label = ''User'', position = Some (450, 100)\<rparr>" "''Knowledge Base''"
      "\<lparr>node_id = ''k'', label = ''Knowledge Base'', position = Some (450, 180)\<rparr>"
      "[]" 0 "\<lparr>edge_id = ''reactflow__edge-k-u'', source = ''k'', target = ''u'',
       sourceHandle = None, targetHandle = None\<rparr>"]
  by (simp add: backwards_eval)

text \<open>
  C8. A submission leaves the nodes and the edges as they are and always stores a
  result; the result is a function of the nodes and the edges alone, so two states with
  the same nodes and edges get the same result, and submitting twice in a row stores the
  same result twice.
\<close>

theorem submit_pure:
  "nodes (handleSubmit st) = nodes st
   \<and> edges (handleSubmit st) = edges st
   \<and> game_result (handleSubmit st) \<noteq> None
   \<and> game_result (handleSubmit (handleSubmit st)) = game_result (handleSubmit st)
   \<and> (nodes st' = nodes st \<and> edges st' = edges st \<longrightarrow>
        game_result (handleSubmit st') = game_result (handleSubmit st))"
  by (simp add: handleSubmit_result handleSubmit_frame)

text \<open>Two states that differ in the clock, the flags and the stored result only.\<close>

theorem submit_pure_witness:
  "game_result (handleSubmit (initial\<lparr>now := 5, showSolution := True,
       game_result := Some \<lparr>correct = 3, total = 11, accuracy = ''27.3'', feedback = msg_needs_work\<rparr>\<rparr>))
     = game_result (handleSubmit initial)
   \<and> game_result (handleSubmit (handleSubmit initial)) = game_result (handleSubmit initial)
   \<and> nodes (handleSubmit initial) = [] \<and> edges (handleSubmit initial) = []"
  using submit_pure [of initial "initial\<lparr>now := 5, showSolution := True,
       game_result := Some \<lparr>correct = 3, total = 11, accuracy = ''27.3'', feedback = msg_needs_work\<rparr>\<rparr>"]
  by (simp add: initial_def)

text \<open>
  C9. Let \<open>a\<close> be the first node labelled \<open>s\<close> and \<open>b\<close> the first node labelled \<open>t\<close> in the
  node list. The pair \<open>(s, t)\<close> counts exactly when an edge goes from \<open>a\<close> to \<open>b\<close>: edges
  none of which starts at \<open>a\<close>, or none of which ends at \<open>b\<close> (such as edges of later nodes
  of the same labels), do not count.
\<close>

theorem first_of_kind_counts:
  "ns = pre @ a # post \<Longrightarrow> label a = s \<Longrightarrow> \<forall>n\<in>set pre. label n \<noteq> s \<Longrightarrow>
   ns = pre' @ b # post' \<Longrightarrow> label b = t \<Longrightarrow> \<forall>n\<in>set pre'. label n \<noteq> t \<Longrightarrow>
   check_pair ns es (s, t) k =
     (if \<exists>e\<in>set es. source e = node_id a \<and> target e = node_id b then k + 1 else k)
   \<and> ((\<forall>e\<in>set es. source e \<noteq> node_id a) \<longrightarrow> check_pair ns es (s, t) k = k)
   \<and> ((\<forall>e\<in>set es. target e \<noteq> node_id b) \<longrightarrow> check_pair ns es (s, t) k = k)"
proof -
  assume "ns = pre @ a # post" "label a = s" "\<forall>n\<in>set pre. label n \<noteq> s"
  then have a: "find (\<lambda>n. label n = s) ns = Some a" by (intro find_first) auto
  assume "ns = pre' @ b # post'" "label b = t" "\<forall>n\<in>set pre'. label n \<noteq> t"
  then have b: "find (\<lambda>n. label n = t) ns = Some b" by (intro find_first) auto
  from a b show ?thesis by (auto simp: check_pair_alt)
qed

text \<open>Two nodes labelled User and one labelled Knowledge Base, the edge drawn from the
  second User: the pair (User, Knowledge Base) is not counted.\<close>

theorem first_of_kind_counts_witness:
  "check_pair
     [\<lparr>node_id = ''u1'', label = ''User'', position = Some (450, 100)\<rparr>,
      \<lparr>node_id = ''u2'', label = ''User'', position = Some (450, 180)\<rparr>,
      \<lparr>node_id = ''k'', label = ''Knowledge Base'', position = Some (450, 260)\<rparr>]
     [\<lparr>edge_id = ''reactflow__edge-u2-k'', source = ''u2'', target = ''k'',
       sourceHandle = None, targetHandle = None\<rparr>]
     (''User'', ''Knowledge Base'') 0 = 0"
proof -
  let ?u1 = "\<lparr>node_id = ''u1'', label = ''User'', position = Some (450, 100)\<rparr>"
  let ?u2 = "\<lparr>node_id = ''u2'', label = ''User'', position = Some (450, 180)\<rparr>"
  let ?k = "\<lparr>node_id = ''k'', label = ''Knowledge Base'', position = Some (450, 260)\<rparr>"
  let ?e = "\<lparr>edge_id = ''reactflow__edge-u2-k'', source = ''u2'', target = ''k'',
       sourceHandle = None, targetHandle = None\<rparr>"
  have 1: "[?u1, ?u2, ?k] = [] @ ?u1 # [?u2, ?k]" by simp
  have 2: "label ?u1 = ''User''" by simp
  have 3: "\<forall>n\<in>set []. label n \<noteq> ''User''" by simp
  have 4: "[?u1, ?u2, ?k] = [?u1, ?u2] @ ?k # []" by simp
  have 5: "label ?k = ''Knowledge Base''" by simp
  have 6: "\<forall>n\<in>set [?u1, ?u2]. label n \<noteq> ''Knowledge Base''" by simp
  have 7: "\<forall>e\<in>set [?e]. source e \<noteq> node_id ?u1" by simp
  from first_of_kind_counts [OF 1 2 3 4 5 6, of "[?e]" 0] 7 show ?thesis
    by blast
qed

text \<open>
  C10. Right after the call of \<^verbatim>\<open>handleShowSolution\<close>, before any of its timers has
  run, the nodes are ten new nodes, one for each label of the palette, each at the
  position the table gives for its label, and there is no edge; a submission in that
  state reports 0 of 11, the accuracy \<^verbatim>\<open>0.0\<close> and the feedback of the lowest tier.
\<close>

theorem submit_before_first_edge:
  "map label (nodes (handleShowSolution uuid st)) =
     [''User'', ''Knowledge Base'', ''AI Engine (Chain)'', ''Retriever'', ''API Endpoints'',
      ''LLM Model'', ''Prompt Template'', ''Output/Results Formatted'', ''Evaluation'',
      ''Human Feedback'']
   \<and> distinct (map label (nodes (handleShowSolution uuid st)))
   \<and> set (map label (nodes (handleShowSolution uuid st))) = set (map fst nodeTemplates)
   \<and> map position (nodes (handleShowSolution uuid st)) =
       map (\<lambda>n. nodePositions (label n)) (nodes (handleShowSolution uuid st))
   \<and> None \<notin> set (map position (nodes (handleShowSolution uuid st)))
   \<and> map node_id (nodes (handleShowSolution uuid st)) = map uuid [0, 1, 2, 3, 4, 5, 6, 7, 8, 9]
   \<and> edges (handleShowSolution uuid st) = []
   \<and> game_result (handleSubmit (handleShowSolution uuid st)) =
       Some \<lparr>correct = 0, total = 11, accuracy = ''0.0'', feedback = msg_needs_work\<rparr>"
proof -
  have labels: "map label (createdNodes (build uuid)) =
     [''User'', ''Knowledge Base'', ''AI Engine (Chain)'', ''Retriever'', ''API Endpoints'',
      ''LLM Model'', ''Prompt Template'', ''Output/Results Formatted'', ''Evaluation'',
      ''Human Feedback'']"
    by (simp add: build_nodes)
  have "distinct (map label (createdNodes (build uuid)))"
    unfolding labels by simp
  moreover have "set (map label (createdNodes (build uuid))) = set (map fst nodeTemplates)"
    unfolding labels by (auto simp: nodeTemplates_def)
  moreover have "map position (createdNodes (build uuid)) =
       map (\<lambda>n. nodePositions (label n)) (createdNodes (build uuid))"
    by (simp add: build_nodes nodePositions_def)
  moreover have "None \<notin> set (map position (createdNodes (build uuid)))"
    by (simp add: build_nodes)
  moreover have "map node_id (createdNodes (build uuid)) = map uuid [0, 1, 2, 3, 4, 5, 6, 7, 8, 9]"
    by (simp add: build_nodes)
  moreover have "count_correct (createdNodes (build uuid)) [] = 0"
    by (rule count_correct_no_edges)
  ultimately show ?thesis
    using labels accuracy_table feedback_table
    by (simp add: handleShowSolution_fields handleSubmit_result)
qed

theorem submit_before_first_edge_witness:
  "map label (nodes (handleShowSolution uuid_seq initial)) =
     [''User'', ''Knowledge Base'', ''AI Engine (Chain)'', ''Retriever'', ''API Endpoints'',
      ''LLM Model'', ''Prompt Template'', ''Output/Results Formatted'', ''Evaluation'',
      ''Human Feedback'']
   \<and> edges (handleShowSolution uuid_seq initial) = []
   \<and> game_result (handleSubmit (handleShowSolution uuid_seq initial)) =
       Some \<lparr>correct = 0, total = 11, accuracy = ''0.0'', feedback = msg_needs_work\<rparr>"
  using submit_before_first_edge [of uuid_seq initial] by blast

end
